theory Spec2Isabelle
  imports Complex_Main "HOL-Library.AList"
begin

section \<open>Python values\<close>

text \<open>
  The library \<^verbatim>\<open>gnss_frequencies.py\<close> computes with Python floats, which are IEEE 754
  binary64 numbers. The embedding reads them in two ways.

  Where a statement is about the formula a function evaluates, or about the data the
  catalogue holds, a finite float is read as the real number it denotes and an operation as
  the exact operation on reals; the one non-finite value the library produces,
  \<^verbatim>\<open>float('inf')\<close>, is a constructor of its own (type \<open>pyfloat\<close>). The functions without the
  suffix \<open>_f64\<close> and the catalogue are modelled this way.

  Where a statement depends on what the machine arithmetic returns (a rounded quantity that
  decides a branch or a band, an equality of two results, a tolerance, the sign of a
  result), the function is modelled on binary64 values, every operation rounding to
  nearest with ties to even (section \<open>Binary64 arithmetic\<close>). These definitions carry the
  suffix \<open>_f64\<close>; the two unit conversions are modelled on binary64 only.
\<close>

datatype pyfloat = Fin real | PInf

text \<open>The exceptions the modelled code can raise.\<close>

datatype error = ZeroDivisionError | KeyError | TypeError | OverflowError | ValueError

text \<open>Comparison of floats, \<^verbatim>\<open>a < b\<close> and \<^verbatim>\<open>a <= b\<close>, with \<^verbatim>\<open>inf\<close> above every finite value.\<close>

fun pf_less :: "pyfloat \<Rightarrow> pyfloat \<Rightarrow> bool" where
  "pf_less (Fin a) (Fin b) = (a < b)"
| "pf_less (Fin a) PInf = True"
| "pf_less PInf b = False"

fun pf_le :: "pyfloat \<Rightarrow> pyfloat \<Rightarrow> bool" where
  "pf_le (Fin a) (Fin b) = (a \<le> b)"
| "pf_le a PInf = True"
| "pf_le PInf (Fin b) = False"

text \<open>
  Python's built-in \<^verbatim>\<open>round(x)\<close> on a float, without \<^verbatim>\<open>ndigits\<close>: the nearest integer,
  a tie going to the even neighbour.
\<close>

definition py_round :: "real \<Rightarrow> int" where
  "py_round x =
     (let f = \<lfloor>x\<rfloor>; d = x - of_int f
      in if d < 1 / 2 then f
         else if 1 / 2 < d then f + 1
         else if even f then f else f + 1)"

text \<open>Decimal formatting of integers: \<^verbatim>\<open>str(n)\<close>, \<^verbatim>\<open>f"{n}"\<close> and \<^verbatim>\<open>f"{k:+d}"\<close>.\<close>

fun digits :: "nat \<Rightarrow> string" where
  "digits n =
     (if n < 10 then [''0123456789'' ! n]
      else digits (n div 10) @ [''0123456789'' ! (n mod 10)])"

definition fmt_d :: "int \<Rightarrow> string" where
  "fmt_d i = (if i < 0 then ''-'' @ digits (nat (- i)) else digits (nat i))"

definition fmt_plus_d :: "int \<Rightarrow> string" where
  "fmt_plus_d i = (if i < 0 then ''-'' @ digits (nat (- i)) else ''+'' @ digits (nat i))"

section \<open>Binary64 arithmetic\<close>

text \<open>
  A binary64 value: a finite real, an infinity, or nan. The two zeros are one value
  \<open>Finite 0\<close>: Python compares them equal, and the library uses a zero only in \<^verbatim>\<open>== 0\<close>, in
  \<^verbatim>\<open>abs\<close>, in a comparison, or as a divisor, where the division raises. \<open>Finite x\<close> is a
  double when \<open>rd x = Finite x\<close>; the operations below return doubles only.
\<close>

datatype f64 = Finite real | PosInf | NegInf | NaN

text \<open>
  Rounding to nearest, ties to even. \<open>pow2 e\<close> is \<open>2^e\<close>. \<open>expo x\<close> is the exponent of the
  binade of \<open>x\<close>: the greatest \<open>e\<close> in \<open>-1022..1024\<close> with \<open>2^e \<le> |x|\<close>, and \<open>-1022\<close> for a
  subnormal \<open>x\<close>. The doubles of that binade are the integer multiples of \<open>2^(e - 52)\<close>, so
  \<open>rd x\<close> rounds the quotient of \<open>x\<close> by this spacing to an integer, a tie going to the
  even one; a result of magnitude \<open>2^1024\<close> or more is an infinity.
\<close>

definition pow2 :: "int \<Rightarrow> real" where
  "pow2 e = (if 0 \<le> e then 2 ^ nat e else 1 / 2 ^ nat (- e))"

primrec expo_search :: "real \<Rightarrow> nat \<Rightarrow> int" where
  "expo_search a 0 = - 1022"
| "expo_search a (Suc n) =
     (if pow2 (int (Suc n) - 1022) \<le> a then int (Suc n) - 1022 else expo_search a n)"

definition expo :: "real \<Rightarrow> int" where
  "expo x = expo_search \<bar>x\<bar> 2046"

definition rd :: "real \<Rightarrow> f64" where
  "rd x =
     (if x = 0 then Finite 0
      else let q = pow2 (expo x - 52);
               y = of_int (py_round (x / q)) * q
           in if 2 ^ 1024 \<le> \<bar>y\<bar> then (if 0 < x then PosInf else NegInf) else Finite y)"

text \<open>
  Negation, \<^verbatim>\<open>abs\<close>, and the operations \<^verbatim>\<open>+\<close>, \<^verbatim>\<open>-\<close>, \<^verbatim>\<open>*\<close> on floats. They never raise: an
  overflow gives an infinity, and \<^verbatim>\<open>inf - inf\<close> and \<^verbatim>\<open>0 * inf\<close> give nan.
\<close>

fun f64_neg :: "f64 \<Rightarrow> f64" where
  "f64_neg (Finite x) = Finite (- x)"
| "f64_neg PosInf = NegInf"
| "f64_neg NegInf = PosInf"
| "f64_neg NaN = NaN"

fun f64_abs :: "f64 \<Rightarrow> f64" where
  "f64_abs (Finite x) = Finite \<bar>x\<bar>"
| "f64_abs PosInf = PosInf"
| "f64_abs NegInf = PosInf"
| "f64_abs NaN = NaN"

fun f64_negative :: "f64 \<Rightarrow> bool" where
  "f64_negative (Finite x) = (x < 0)"
| "f64_negative NegInf = True"
| "f64_negative PosInf = False"
| "f64_negative NaN = False"

fun f64_add :: "f64 \<Rightarrow> f64 \<Rightarrow> f64" where
  "f64_add (Finite a) (Finite b) = rd (a + b)"
| "f64_add NaN b = NaN"
| "f64_add a NaN = NaN"
| "f64_add PosInf NegInf = NaN"
| "f64_add NegInf PosInf = NaN"
| "f64_add PosInf b = PosInf"
| "f64_add a PosInf = PosInf"
| "f64_add NegInf b = NegInf"
| "f64_add a NegInf = NegInf"

definition f64_sub :: "f64 \<Rightarrow> f64 \<Rightarrow> f64" where
  "f64_sub a b = f64_add a (f64_neg b)"

fun f64_mul :: "f64 \<Rightarrow> f64 \<Rightarrow> f64" where
  "f64_mul (Finite a) (Finite b) = rd (a * b)"
| "f64_mul NaN b = NaN"
| "f64_mul a NaN = NaN"
| "f64_mul a b =
     (if a = Finite 0 \<or> b = Finite 0 then NaN
      else if f64_negative a \<noteq> f64_negative b then NegInf else PosInf)"

text \<open>
  Division \<^verbatim>\<open>a / b\<close> on floats raises \<^verbatim>\<open>ZeroDivisionError\<close> on a zero divisor, whatever the
  dividend; an overflow gives an infinity.
\<close>

fun f64_div :: "f64 \<Rightarrow> f64 \<Rightarrow> error + f64" where
  "f64_div a (Finite b) =
     (if b = 0 then Inl ZeroDivisionError
      else case a of
             Finite x \<Rightarrow> Inr (rd (x / b))
           | NaN \<Rightarrow> Inr NaN
           | _ \<Rightarrow> Inr (if f64_negative a \<noteq> (b < 0) then NegInf else PosInf))"
| "f64_div a NaN = Inr NaN"
| "f64_div (Finite x) b = Inr (Finite 0)"
| "f64_div NaN b = Inr NaN"
| "f64_div a b = Inr NaN"

text \<open>The comparisons \<^verbatim>\<open>a < b\<close> and \<^verbatim>\<open>a <= b\<close>; a comparison with nan is false.\<close>

fun f64_less :: "f64 \<Rightarrow> f64 \<Rightarrow> bool" where
  "f64_less NaN b = False"
| "f64_less a NaN = False"
| "f64_less (Finite a) (Finite b) = (a < b)"
| "f64_less a NegInf = False"
| "f64_less PosInf b = False"
| "f64_less a b = True"

fun f64_le :: "f64 \<Rightarrow> f64 \<Rightarrow> bool" where
  "f64_le NaN b = False"
| "f64_le a NaN = False"
| "f64_le (Finite a) (Finite b) = (a \<le> b)"
| "f64_le NegInf b = True"
| "f64_le a PosInf = True"
| "f64_le a b = False"

text \<open>
  \<^verbatim>\<open>round(x)\<close> and \<^verbatim>\<open>math.floor(x)\<close> return an int; on an infinity they raise
  \<^verbatim>\<open>OverflowError\<close>, on nan \<^verbatim>\<open>ValueError\<close>. An int operand of a float operation is converted
  to a float first, rounded to nearest; the conversion raises \<^verbatim>\<open>OverflowError\<close> when the
  int is too large for a float.
\<close>

fun f64_round :: "f64 \<Rightarrow> error + int" where
  "f64_round (Finite x) = Inr (py_round x)"
| "f64_round NaN = Inl ValueError"
| "f64_round a = Inl OverflowError"

fun f64_floor :: "f64 \<Rightarrow> error + int" where
  "f64_floor (Finite x) = Inr \<lfloor>x\<rfloor>"
| "f64_floor NaN = Inl ValueError"
| "f64_floor a = Inl OverflowError"

definition int_to_f64 :: "int \<Rightarrow> error + f64" where
  "int_to_f64 n = (case rd (of_int n) of Finite y \<Rightarrow> Inr (Finite y) | _ \<Rightarrow> Inl OverflowError)"

section \<open>Unit conversion\<close>

text \<open>
  \<^verbatim>\<open>cpd_to_days\<close> and \<^verbatim>\<open>days_to_cpd\<close>: the guard \<^verbatim>\<open>== 0\<close>, then \<^verbatim>\<open>1.0 / x\<close>, rounded. The
  guard has excluded the zero divisor, so the division does not raise; on an infinity it
  returns \<open>0.0\<close>, on nan it returns nan.
\<close>

definition cpd_to_days :: "f64 \<Rightarrow> error + f64" where
  "cpd_to_days frequency_cpd =
     (if frequency_cpd = Finite 0 then Inr PosInf else f64_div (Finite 1) frequency_cpd)"

definition days_to_cpd :: "f64 \<Rightarrow> error + f64" where
  "days_to_cpd period_days =
     (if period_days = Finite 0 then Inr PosInf else f64_div (Finite 1) period_days)"

section \<open>Alias arithmetic\<close>

definition calculate_alias_frequency :: "real \<Rightarrow> real \<Rightarrow> real" where
  "calculate_alias_frequency freq reference_freq =
     (if reference_freq = 0 then \<bar>freq - of_int (py_round freq)\<bar>
      else let ratio = freq / reference_freq
           in \<bar>freq - of_int (py_round ratio) * reference_freq\<bar>)"

text \<open>
  \<^verbatim>\<open>calculate_subdaily_aliasing\<close>: \<^verbatim>\<open>T = sampling_interval_hours / 24.0\<close>, and \<^verbatim>\<open>1 / T\<close>
  raises when \<^verbatim>\<open>T\<close> is zero.
\<close>

definition calculate_subdaily_aliasing :: "real \<Rightarrow> real \<Rightarrow> error + real" where
  "calculate_subdaily_aliasing freq_cpd sampling_interval_hours =
     (let T = sampling_interval_hours / 24
      in if T = 0 then Inl ZeroDivisionError
         else Inr \<bar>freq_cpd - (1 / T) * of_int \<lfloor>freq_cpd * T + 1 / 2\<rfloor>\<bar>)"

text \<open>
  The same two functions on binary64. In \<^verbatim>\<open>freq - round(ratio) * reference_freq\<close> the int
  \<^verbatim>\<open>round(ratio)\<close> is converted to a float for the product; in
  \<^verbatim>\<open>freq_cpd - (1 / T) * math.floor(freq_cpd * T + 0.5)\<close> the quotient \<^verbatim>\<open>1 / T\<close> is evaluated
  before the floor, and the floor is converted to a float for the product.
\<close>

definition calculate_alias_frequency_f64 :: "f64 \<Rightarrow> f64 \<Rightarrow> error + f64" where
  "calculate_alias_frequency_f64 freq reference_freq =
     (if reference_freq = Finite 0 then
        (case f64_round freq of
           Inl e \<Rightarrow> Inl e
         | Inr n \<Rightarrow>
             (case int_to_f64 n of
                Inl e \<Rightarrow> Inl e
              | Inr r \<Rightarrow> Inr (f64_abs (f64_sub freq r))))
      else
        (case f64_div freq reference_freq of
           Inl e \<Rightarrow> Inl e
         | Inr ratio \<Rightarrow>
             (case f64_round ratio of
                Inl e \<Rightarrow> Inl e
              | Inr n \<Rightarrow>
                  (case int_to_f64 n of
                     Inl e \<Rightarrow> Inl e
                   | Inr r \<Rightarrow> Inr (f64_abs (f64_sub freq (f64_mul r reference_freq)))))))"

definition calculate_subdaily_aliasing_f64 :: "f64 \<Rightarrow> f64 \<Rightarrow> error + f64" where
  "calculate_subdaily_aliasing_f64 freq_cpd sampling_interval_hours =
     (case f64_div sampling_interval_hours (Finite 24) of
        Inl e \<Rightarrow> Inl e
      | Inr T \<Rightarrow>
          (case f64_div (Finite 1) T of
             Inl e \<Rightarrow> Inl e
           | Inr inv_T \<Rightarrow>
               (case f64_floor (f64_add (f64_mul freq_cpd T) (Finite (1 / 2))) of
                  Inl e \<Rightarrow> Inl e
                | Inr n \<Rightarrow>
                    (case int_to_f64 n of
                       Inl e \<Rightarrow> Inl e
                     | Inr r \<Rightarrow> Inr (f64_abs (f64_sub freq_cpd (f64_mul inv_T r)))))))"

section \<open>Orbital period\<close>

text \<open>
  \<^verbatim>\<open>calculate_orbital_period\<close>: the test for \<^verbatim>\<open>n == 0 and m == 0\<close> comes before any division;
  \<^verbatim>\<open>n / T_E\<close> is evaluated before \<^verbatim>\<open>m / T_S\<close>, and either raises on a zero period.
\<close>

definition calculate_orbital_period :: "int \<Rightarrow> int \<Rightarrow> real \<Rightarrow> real \<Rightarrow> error + pyfloat" where
  "calculate_orbital_period n m T_S T_E =
     (if n = 0 \<and> m = 0 then Inr PInf
      else if T_E = 0 then Inl ZeroDivisionError
      else if T_S = 0 then Inl ZeroDivisionError
      else let denominator = of_int n / T_E + of_int m / T_S
           in if \<bar>denominator\<bar> < 1 / 10 ^ 10 then Inr PInf
              else Inr (Fin \<bar>1 / denominator\<bar>))"

text \<open>
  The same function on binary64: \<^verbatim>\<open>n\<close> and \<^verbatim>\<open>m\<close> are converted to floats for the two
  quotients, each quotient and their sum are rounded, and the sum is compared with the
  double nearest to \<open>1e-10\<close>.
\<close>

definition calculate_orbital_period_f64 :: "int \<Rightarrow> int \<Rightarrow> f64 \<Rightarrow> f64 \<Rightarrow> error + f64" where
  "calculate_orbital_period_f64 n m T_S T_E =
     (if n = 0 \<and> m = 0 then Inr PosInf
      else
        (case int_to_f64 n of
           Inl e \<Rightarrow> Inl e
         | Inr nf \<Rightarrow>
             (case f64_div nf T_E of
                Inl e \<Rightarrow> Inl e
              | Inr a \<Rightarrow>
                  (case int_to_f64 m of
                     Inl e \<Rightarrow> Inl e
                   | Inr mf \<Rightarrow>
                       (case f64_div mf T_S of
                          Inl e \<Rightarrow> Inl e
                        | Inr b \<Rightarrow>
                            (let denominator = f64_add a b
                             in if f64_less (f64_abs denominator) (rd (1 / 10 ^ 10))
                                then Inr PosInf
                                else (case f64_div (Finite 1) denominator of
                                        Inl e \<Rightarrow> Inl e
                                      | Inr p \<Rightarrow> Inr (f64_abs p))))))))"

section \<open>Harmonics\<close>

text \<open>
  Dictionaries are association lists in insertion order. \<open>AList.update\<close> is Python's
  \<^verbatim>\<open>d[k] = v\<close>: an existing key keeps its place and gets the new value, a new key goes to
  the end. \<open>AList.delete\<close> is \<^verbatim>\<open>del d[k]\<close> for a key that is present.
\<close>

definition calculate_draconitic_harmonics :: "real \<Rightarrow> int \<Rightarrow> (int \<times> real) list" where
  "calculate_draconitic_harmonics base_freq max_harmonic =
     map (\<lambda>i. (i, of_int i * base_freq)) [1..max_harmonic]"

definition calculate_annual_harmonics :: "real \<Rightarrow> int \<Rightarrow> (int \<times> real) list" where
  "calculate_annual_harmonics base_freq max_harmonic =
     map (\<lambda>i. (i, of_int i * base_freq)) [1..max_harmonic]"

section \<open>Orbital peaks\<close>

type_synonym band = "(string \<times> real) list"
type_synonym peaks = "(string \<times> band) list"

text \<open>The label \<^verbatim>\<open>f"{mult}f_u{k:+d}f_d"\<close>.\<close>

definition peak_label :: "int \<Rightarrow> int \<Rightarrow> string" where
  "peak_label mult k = fmt_d mult @ ''f_u'' @ fmt_plus_d k @ ''f_d''"

text \<open>
  \<^verbatim>\<open>peaks[category][label] = alias_freq\<close>. The five categories are keys of \<^verbatim>\<open>peaks\<close> from
  its initialisation to the end of the loops (\<open>collect_peaks_keys\<close> below), so the lookup
  of the category cannot fail there.
\<close>

definition store_peak :: "string \<Rightarrow> string \<Rightarrow> real \<Rightarrow> peaks \<Rightarrow> peaks" where
  "store_peak category label alias_freq peaks =
     AList.map_entry category (AList.update label alias_freq) peaks"

definition empty_peaks :: peaks where
  "empty_peaks =
     [(''8d_peaks'', []), (''4d_peaks'', []), (''2-7d_peaks'', []), (''2d_peaks'', []),
      (''1d_peaks'', [])]"

text \<open>The body of the inner loop, for one multiplier and one harmonic.\<close>

definition classify_peak :: "real \<Rightarrow> real \<Rightarrow> int \<Rightarrow> int \<Rightarrow> peaks \<Rightarrow> peaks" where
  "classify_peak sun_arg_lat_freq draconitic_freq mult k peaks =
     (let base_freq = of_int mult * sun_arg_lat_freq;
          combined_freq = base_freq + of_int k * draconitic_freq;
          alias_freq = \<bar>combined_freq - of_int (py_round combined_freq)\<bar>;
          period_days = (if alias_freq > 0 then Fin (1 / alias_freq) else PInf)
      in if pf_less (Fin 6) period_days \<and> pf_le period_days (Fin 12)
           then store_peak ''8d_peaks'' (peak_label mult k) alias_freq peaks
         else if pf_less (Fin 3) period_days \<and> pf_le period_days (Fin 6)
           then store_peak ''4d_peaks'' (peak_label mult k) alias_freq peaks
         else if pf_less (Fin 2) period_days \<and> pf_le period_days (Fin 3.5)
           then store_peak ''2-7d_peaks'' (peak_label mult k) alias_freq peaks
         else if pf_less (Fin 1.5) period_days \<and> pf_le period_days (Fin 2.5)
           then store_peak ''2d_peaks'' (peak_label mult k) alias_freq peaks
         else if pf_less (Fin 0.5) period_days \<and> pf_le period_days (Fin 1.5)
           then store_peak ''1d_peaks'' (peak_label mult k) alias_freq peaks
         else peaks)"

text \<open>
  The two loops: \<^verbatim>\<open>for mult in range(1, 5)\<close>, and inside it
  \<^verbatim>\<open>for k in range(min_harm, max_harm)\<close>.
\<close>

definition collect_peaks :: "real \<Rightarrow> real \<Rightarrow> int \<times> int \<Rightarrow> peaks" where
  "collect_peaks sun_arg_lat_freq draconitic_freq harmonics_range =
     (case harmonics_range of (min_harm, max_harm) \<Rightarrow>
        fold (\<lambda>mult. fold (\<lambda>k. classify_peak sun_arg_lat_freq draconitic_freq mult k)
                [min_harm..max_harm - 1])
          [1..4] empty_peaks)"

text \<open>\<^verbatim>\<open>dict(items)\<close>: the pairs are stored one after the other.\<close>

definition dict_of_items :: "('k \<times> 'v) list \<Rightarrow> ('k \<times> 'v) list" where
  "dict_of_items items = fold (\<lambda>kv. AList.update (fst kv) (snd kv)) items []"

text \<open>
  \<^verbatim>\<open>dict(sorted(d.items(), key=lambda x: x[1], reverse=True)[:10])\<close>. Python's sort is
  stable also with \<^verbatim>\<open>reverse=True\<close>, as is \<open>sort_key\<close> on the negated key.
\<close>

definition top_peaks :: "band \<Rightarrow> band" where
  "top_peaks d = dict_of_items (take 10 (sort_key (\<lambda>x. - snd x) d))"

text \<open>
  One round of the last loop. The categories come from \<^verbatim>\<open>list(peaks.keys())\<close>, each is
  visited once, and no other key is removed before its turn: the lookup finds it.
\<close>

definition prune_category :: "string \<Rightarrow> peaks \<Rightarrow> peaks" where
  "prune_category category peaks =
     (case map_of peaks category of
        None \<Rightarrow> peaks
      | Some d \<Rightarrow>
          if d = [] then AList.delete category peaks
          else AList.update category (top_peaks d) peaks)"

definition calculate_orbital_peaks :: "real \<Rightarrow> real \<Rightarrow> int \<times> int \<Rightarrow> peaks" where
  "calculate_orbital_peaks sun_arg_lat_freq draconitic_freq harmonics_range =
     (let peaks = collect_peaks sun_arg_lat_freq draconitic_freq harmonics_range
      in fold prune_category (map fst peaks) peaks)"

definition default_harmonics_range :: "int \<times> int" where
  "default_harmonics_range = (- 6, 7)"

subsection \<open>The classification as the specification words it\<close>

text \<open>
  The combined frequency of a pair, its alias against 1.0 cpd, the implied period, and the
  band table read top to bottom, the first matching row winning.
\<close>

definition spec_combined :: "real \<Rightarrow> real \<Rightarrow> int \<Rightarrow> int \<Rightarrow> real" where
  "spec_combined f_u f_d mult k = of_int mult * f_u + of_int k * f_d"

definition spec_alias :: "real \<Rightarrow> real \<Rightarrow> int \<Rightarrow> int \<Rightarrow> real" where
  "spec_alias f_u f_d mult k =
     \<bar>spec_combined f_u f_d mult k - of_int (py_round (spec_combined f_u f_d mult k))\<bar>"

definition spec_period :: "real \<Rightarrow> real \<Rightarrow> int \<Rightarrow> int \<Rightarrow> pyfloat" where
  "spec_period f_u f_d mult k =
     (if spec_alias f_u f_d mult k = 0 then PInf else Fin (1 / spec_alias f_u f_d mult k))"

fun spec_band :: "pyfloat \<Rightarrow> string option" where
  "spec_band PInf = None"
| "spec_band (Fin p) =
     (if 6 < p \<and> p \<le> 12 then Some ''8d_peaks''
      else if 3 < p \<and> p \<le> 6 then Some ''4d_peaks''
      else if 2 < p \<and> p \<le> 3.5 then Some ''2-7d_peaks''
      else if 1.5 < p \<and> p \<le> 2.5 then Some ''2d_peaks''
      else if 0.5 < p \<and> p \<le> 1.5 then Some ''1d_peaks''
      else None)"

text \<open>The loop body on a pair, for the two loops read as one loop over the pairs.\<close>

definition peak_step :: "real \<Rightarrow> real \<Rightarrow> int \<times> int \<Rightarrow> peaks \<Rightarrow> peaks" where
  "peak_step f_u f_d p = classify_peak f_u f_d (fst p) (snd p)"

text \<open>\<^verbatim>\<open>peaks[b][l]\<close> where both keys are present.\<close>

definition peak_lookup :: "peaks \<Rightarrow> string \<Rightarrow> string \<Rightarrow> real option" where
  "peak_lookup peaks b l = (case map_of peaks b of None \<Rightarrow> None | Some d \<Rightarrow> map_of d l)"

subsection \<open>The classification on binary64\<close>

text \<open>A loop whose body can raise: the first exception ends it.\<close>

fun efold :: "('a \<Rightarrow> 's \<Rightarrow> error + 's) \<Rightarrow> 'a list \<Rightarrow> 's \<Rightarrow> error + 's" where
  "efold f [] s = Inr s"
| "efold f (x # xs) s = (case f x s of Inl e \<Rightarrow> Inl e | Inr s' \<Rightarrow> efold f xs s')"

text \<open>
  The body of the inner loop on binary64, with \<^verbatim>\<open>base_freq\<close> computed by the outer loop.
  \<^verbatim>\<open>round\<close> raises on a combined frequency that is not finite. The dictionaries hold
  the finite values of \<^verbatim>\<open>alias_freq\<close> as reals: an \<^verbatim>\<open>alias_freq\<close> that is not finite is
  never stored, since the period of an infinite alias is \<open>1.0 / inf = 0.0\<close> and the period
  of a nan (which fails \<^verbatim>\<open>alias_freq > 0\<close>) is \<open>inf\<close>, and neither lies in a band.
\<close>

definition classify_peak_f64 :: "f64 \<Rightarrow> f64 \<Rightarrow> int \<Rightarrow> int \<Rightarrow> peaks \<Rightarrow> error + peaks" where
  "classify_peak_f64 base_freq draconitic_freq mult k peaks =
     (case int_to_f64 k of
        Inl e \<Rightarrow> Inl e
      | Inr kf \<Rightarrow>
          (let combined_freq = f64_add base_freq (f64_mul kf draconitic_freq)
           in case f64_round combined_freq of
                Inl e \<Rightarrow> Inl e
              | Inr n \<Rightarrow>
                  (case int_to_f64 n of
                     Inl e \<Rightarrow> Inl e
                   | Inr nf \<Rightarrow>
                       (let alias_freq = f64_abs (f64_sub combined_freq nf)
                        in case (if f64_less (Finite 0) alias_freq
                                 then f64_div (Finite 1) alias_freq else Inr PosInf) of
                             Inl e \<Rightarrow> Inl e
                           | Inr period_days \<Rightarrow>
                               (case alias_freq of
                                  Finite a \<Rightarrow>
                                    Inr (if f64_less (Finite 6) period_days \<and> f64_le period_days (Finite 12)
                                           then store_peak ''8d_peaks'' (peak_label mult k) a peaks
                                         else if f64_less (Finite 3) period_days \<and> f64_le period_days (Finite 6)
                                           then store_peak ''4d_peaks'' (peak_label mult k) a peaks
                                         else if f64_less (Finite 2) period_days \<and> f64_le period_days (Finite 3.5)
                                           then store_peak ''2-7d_peaks'' (peak_label mult k) a peaks
                                         else if f64_less (Finite 1.5) period_days \<and> f64_le period_days (Finite 2.5)
                                           then store_peak ''2d_peaks'' (peak_label mult k) a peaks
                                         else if f64_less (Finite 0.5) period_days \<and> f64_le period_days (Finite 1.5)
                                           then store_peak ''1d_peaks'' (peak_label mult k) a peaks
                                         else peaks)
                                | _ \<Rightarrow> Inr peaks)))))"

text \<open>
  The two loops and the function on binary64. \<^verbatim>\<open>base_freq = mult * sun_arg_lat_freq\<close> is
  computed once for each multiplier. The last loop, which prunes and sorts the bands, is
  the one of the exact model: it compares the stored values, which are finite.
\<close>

definition collect_peaks_f64 :: "f64 \<Rightarrow> f64 \<Rightarrow> int \<times> int \<Rightarrow> error + peaks" where
  "collect_peaks_f64 sun_arg_lat_freq draconitic_freq harmonics_range =
     (case harmonics_range of (min_harm, max_harm) \<Rightarrow>
        efold (\<lambda>mult peaks.
                 case int_to_f64 mult of
                   Inl e \<Rightarrow> Inl e
                 | Inr mf \<Rightarrow>
                     (let base_freq = f64_mul mf sun_arg_lat_freq
                      in efold (\<lambda>k. classify_peak_f64 base_freq draconitic_freq mult k)
                           [min_harm..max_harm - 1] peaks))
          [1..4] empty_peaks)"

definition calculate_orbital_peaks_f64 :: "f64 \<Rightarrow> f64 \<Rightarrow> int \<times> int \<Rightarrow> error + peaks" where
  "calculate_orbital_peaks_f64 sun_arg_lat_freq draconitic_freq harmonics_range =
     (case collect_peaks_f64 sun_arg_lat_freq draconitic_freq harmonics_range of
        Inl e \<Rightarrow> Inl e
      | Inr peaks \<Rightarrow> Inr (fold prune_category (map fst peaks) peaks))"

text \<open>
  The classification as the specification words it, evaluated on binary64: the combined
  frequency \<open>mult * f_u + k * f_d\<close>, its alias \<open>|combined - round(combined)|\<close>, the period
  \<open>1 / alias\<close> (infinite for alias 0), and the band table read top to bottom.
\<close>

definition spec_combined_f64 :: "f64 \<Rightarrow> f64 \<Rightarrow> int \<Rightarrow> int \<Rightarrow> error + f64" where
  "spec_combined_f64 f_u f_d mult k =
     (case int_to_f64 mult of
        Inl e \<Rightarrow> Inl e
      | Inr mf \<Rightarrow>
          (case int_to_f64 k of
             Inl e \<Rightarrow> Inl e
           | Inr kf \<Rightarrow> Inr (f64_add (f64_mul mf f_u) (f64_mul kf f_d))))"

definition spec_alias_f64 :: "f64 \<Rightarrow> f64 \<Rightarrow> int \<Rightarrow> int \<Rightarrow> error + f64" where
  "spec_alias_f64 f_u f_d mult k =
     (case spec_combined_f64 f_u f_d mult k of
        Inl e \<Rightarrow> Inl e
      | Inr combined \<Rightarrow>
          (case f64_round combined of
             Inl e \<Rightarrow> Inl e
           | Inr n \<Rightarrow>
               (case int_to_f64 n of
                  Inl e \<Rightarrow> Inl e
                | Inr nf \<Rightarrow> Inr (f64_abs (f64_sub combined nf)))))"

definition spec_period_f64 :: "real \<Rightarrow> f64" where
  "spec_period_f64 alias_freq = (if alias_freq = 0 then PosInf else rd (1 / alias_freq))"

fun spec_band_f64 :: "f64 \<Rightarrow> string option" where
  "spec_band_f64 (Finite p) =
     (if 6 < p \<and> p \<le> 12 then Some ''8d_peaks''
      else if 3 < p \<and> p \<le> 6 then Some ''4d_peaks''
      else if 2 < p \<and> p \<le> 3.5 then Some ''2-7d_peaks''
      else if 1.5 < p \<and> p \<le> 2.5 then Some ''2d_peaks''
      else if 0.5 < p \<and> p \<le> 1.5 then Some ''1d_peaks''
      else None)"
| "spec_band_f64 q = None"

text \<open>
  The band and the value stored for a pair, if any, and the loop body on a pair that
  does not raise.
\<close>

definition spec_entry_f64 :: "f64 \<Rightarrow> f64 \<Rightarrow> int \<times> int \<Rightarrow> (string \<times> real) option" where
  "spec_entry_f64 f_u f_d p =
     (case spec_alias_f64 f_u f_d (fst p) (snd p) of
        Inr (Finite a) \<Rightarrow>
          (case spec_band_f64 (spec_period_f64 a) of
             None \<Rightarrow> None
           | Some b \<Rightarrow> Some (b, a))
      | _ \<Rightarrow> None)"

definition peak_step_f64 :: "f64 \<Rightarrow> f64 \<Rightarrow> int \<times> int \<Rightarrow> peaks \<Rightarrow> peaks" where
  "peak_step_f64 f_u f_d p peaks =
     (case spec_entry_f64 f_u f_d p of
        None \<Rightarrow> peaks
      | Some ba \<Rightarrow> store_peak (fst ba) (peak_label (fst p) (snd p)) (snd ba) peaks)"

section \<open>The catalogue\<close>

text \<open>
  The catalogue is a dictionary of dictionaries with floats at the leaves; its keys are
  strings, and integers in the harmonic tables. A string is the list of its bytes in UTF-8.
\<close>

datatype pykey = KStr string | KInt int

datatype pyval = Num pyfloat | Dict "(pykey \<times> pyval) list"

text \<open>\<^verbatim>\<open>d[k]\<close> and \<^verbatim>\<open>d[k] = v\<close> on a value that may not be a dictionary.\<close>

fun getitem :: "pyval \<Rightarrow> pykey \<Rightarrow> error + pyval" where
  "getitem (Dict d) k = (case map_of d k of None \<Rightarrow> Inl KeyError | Some v \<Rightarrow> Inr v)"
| "getitem (Num x) k = Inl TypeError"

fun setitem :: "pyval \<Rightarrow> pykey \<Rightarrow> pyval \<Rightarrow> error + pyval" where
  "setitem (Dict d) k v = Inr (Dict (AList.update k v d))"
| "setitem (Num x) k v = Inl TypeError"

fun getpath :: "pyval \<Rightarrow> pykey list \<Rightarrow> error + pyval" where
  "getpath v [] = Inr v"
| "getpath v (k # ks) = (case getitem v k of Inl e \<Rightarrow> Inl e | Inr w \<Rightarrow> getpath w ks)"

text \<open>Every float stored in a value, with the keys that lead to it.\<close>

fun leaves :: "pyval \<Rightarrow> (pykey list \<times> pyfloat) list" where
  "leaves (Num x) = [([], x)]"
| "leaves (Dict d) =
     concat (map (\<lambda>kv. map (\<lambda>px. (fst kv # fst px, snd px)) (leaves (snd kv))) d)"

text \<open>The typed dictionaries of the functions above, as values.\<close>

definition num :: "real \<Rightarrow> pyval" where
  "num r = Num (Fin r)"

definition real_dict :: "(string \<times> real) list \<Rightarrow> pyval" where
  "real_dict d = Dict (map (\<lambda>kv. (KStr (fst kv), num (snd kv))) d)"

definition int_dict :: "(int \<times> real) list \<Rightarrow> pyval" where
  "int_dict d = Dict (map (\<lambda>kv. (KInt (fst kv), num (snd kv))) d)"

definition peaks_dict :: "peaks \<Rightarrow> pyval" where
  "peaks_dict p = Dict (map (\<lambda>kv. (KStr (fst kv), real_dict (snd kv))) p)"

subsection \<open>Orbital signals\<close>

text \<open>The list \<^verbatim>\<open>nm_combinations\<close> of \<^verbatim>\<open>calculate_orbital_signals_table\<close>.\<close>

definition nm_combinations :: "(int \<times> int) list" where
  "nm_combinations =
     [(- 4, 1), (- 3, 1), (- 2, 1), (- 1, 1), (0, 1), (1, 1), (2, 1),
      (- 4, 2), (- 3, 2), (- 2, 2), (- 1, 2), (0, 2), (1, 2), (2, 2),
      (- 2, 3), (- 1, 3), (0, 3), (1, 3),
      (- 1, 4), (0, 4), (1, 4)]"

text \<open>
  The loop over \<^verbatim>\<open>nm_combinations\<close> for one constellation. A pair is recorded when
  \<^verbatim>\<open>P_nm != float('inf') and P_nm > 0\<close>; an exception of a callee ends the loop.
\<close>

fun signals_loop :: "real \<Rightarrow> real \<Rightarrow> (int \<times> int) list \<Rightarrow> (pykey \<times> pyval) list
    \<Rightarrow> error + (pykey \<times> pyval) list" where
  "signals_loop T_S T_E [] signals = Inr signals"
| "signals_loop T_S T_E ((n, m) # rest) signals =
     (case calculate_orbital_period n m T_S T_E of
        Inl e \<Rightarrow> Inl e
      | Inr PInf \<Rightarrow> signals_loop T_S T_E rest signals
      | Inr (Fin P_nm) \<Rightarrow>
          if P_nm > 0 then
            (let freq_cpd = 24 / P_nm
             in case calculate_subdaily_aliasing freq_cpd 24 of
                  Inl e \<Rightarrow> Inl e
                | Inr aliased_freq_cpd \<Rightarrow>
                    (let aliased_period_days =
                           (if aliased_freq_cpd > 0 then Fin (1 / aliased_freq_cpd) else PInf)
                     in signals_loop T_S T_E rest
                          (AList.update (KStr (''n'' @ fmt_d n @ ''_m'' @ fmt_d m))
                             (Dict [(KStr ''orbital_period_hours'', Num (Fin P_nm)),
                                    (KStr ''frequency_cpd'', Num (Fin freq_cpd)),
                                    (KStr ''aliased_frequency_cpd'', Num (Fin aliased_freq_cpd)),
                                    (KStr ''aliased_period_days'', Num aliased_period_days)])
                             signals)))
          else signals_loop T_S T_E rest signals)"

text \<open>The loop over \<^verbatim>\<open>constellation_periods.items()\<close>.\<close>

fun constellations_loop :: "real \<Rightarrow> (string \<times> real) list \<Rightarrow> (pykey \<times> pyval) list
    \<Rightarrow> error + (pykey \<times> pyval) list" where
  "constellations_loop T_E [] orbital_signals = Inr orbital_signals"
| "constellations_loop T_E ((constellation, T_S) # rest) orbital_signals =
     (case signals_loop T_S T_E nm_combinations [] of
        Inl e \<Rightarrow> Inl e
      | Inr signals \<Rightarrow>
          constellations_loop T_E rest
            (AList.update (KStr constellation) (Dict signals) orbital_signals))"

definition calculate_orbital_signals_table :: "error + (pykey \<times> pyval) list" where
  "calculate_orbital_signals_table =
     (let T_E = 23.9345;
          T_S_GPS = 11.967;
          T_S_GLONASS = 11.264;
          T_S_GALILEO = 14.077;
          orbital_signals =
            [(KStr ''gps'', Dict []), (KStr ''glonass'', Dict []), (KStr ''galileo'', Dict [])];
          constellation_periods =
            [(''gps'', T_S_GPS), (''glonass'', T_S_GLONASS), (''galileo'', T_S_GALILEO)]
      in constellations_loop T_E constellation_periods orbital_signals)"

subsection \<open>Assembly\<close>

text \<open>
  The dictionary \<^verbatim>\<open>tides\<close> of \<^verbatim>\<open>create_gnss_frequencies\<close>; the key of the fifth entry
  starts with the Greek letter mu, two bytes in UTF-8.
\<close>

definition tides :: "(string \<times> real) list" where
  "tides =
     [(''145_545'', 0.9293886),
      (''OO_1'', 0.9294198),
      (''O_1'', 0.9295357),
      (''2N_2'', 1.8596904),
      ([CHR 0xCE, CHR 0xBC] @ ''_2'', 1.8645473),
      (''M_2'', 1.9322734),
      (''M_m'', 0.0362920),
      (''M_f'', 0.0732027)]"

text \<open>One round of the loop over \<^verbatim>\<open>tides.items()\<close>: four assignments to \<^verbatim>\<open>aliases\<close>.\<close>

definition alias_step :: "real \<Rightarrow> real \<Rightarrow> real \<Rightarrow> string \<times> real \<Rightarrow> (pykey \<times> pyval) list
    \<Rightarrow> (pykey \<times> pyval) list" where
  "alias_step gps_ground_repeat galileo_ground_repeat glonass_ground_repeat tide aliases =
     (case tide of (tide_name, tide_freq) \<Rightarrow>
        AList.update (KStr (tide_name @ ''_glonass''))
            (num (calculate_alias_frequency tide_freq glonass_ground_repeat))
          (AList.update (KStr (tide_name @ ''_galileo''))
              (num (calculate_alias_frequency tide_freq galileo_ground_repeat))
            (AList.update (KStr (tide_name @ ''_gps''))
                (num (calculate_alias_frequency tide_freq gps_ground_repeat))
              (AList.update (KStr (tide_name @ ''_daily''))
                  (num (calculate_alias_frequency tide_freq 1)) aliases))))"

text \<open>
  \<^verbatim>\<open>gnss_frequencies[constellation]["orbital_signals"] = orbital_signals[constellation]\<close>:
  the right-hand side first, then the target dictionary, then the assignment. The inner
  dictionary is reachable only through the outer one, so the update in place is the outer
  dictionary with the updated inner one.
\<close>

definition attach_signals :: "pyval \<Rightarrow> pyval \<Rightarrow> string \<Rightarrow> error + pyval" where
  "attach_signals orbital_signals gnss_frequencies constellation =
     (case getitem orbital_signals (KStr constellation) of
        Inl e \<Rightarrow> Inl e
      | Inr signals \<Rightarrow>
          (case getitem gnss_frequencies (KStr constellation) of
             Inl e \<Rightarrow> Inl e
           | Inr entry \<Rightarrow>
               (case setitem entry (KStr ''orbital_signals'') signals of
                  Inl e \<Rightarrow> Inl e
                | Inr entry' \<Rightarrow> setitem gnss_frequencies (KStr constellation) entry')))"

fun attach_all :: "pyval \<Rightarrow> string list \<Rightarrow> pyval \<Rightarrow> error + pyval" where
  "attach_all orbital_signals [] gnss_frequencies = Inr gnss_frequencies"
| "attach_all orbital_signals (constellation # rest) gnss_frequencies =
     (case attach_signals orbital_signals gnss_frequencies constellation of
        Inl e \<Rightarrow> Inl e
      | Inr g \<Rightarrow> attach_all orbital_signals rest g)"

definition create_gnss_frequencies :: "error + pyval" where
  "create_gnss_frequencies =
     (let earth_angular_speed = 1.0027378;
          earth_orbital_freq = 0.0027378;
          gps_orbital_freq = 2.0057014;
          gps_nodal_precession = - 0.0001075;
          gps_ground_repeat = 1.0028507;
          gps_draconitic = 0.0028453;
          glonass_orbital_freq = 2.1310182;
          glonass_nodal_precession = - 0.0000922;
          glonass_ground_repeat = 0.1253540;
          glonass_sun_arg_lat = 2.1281882;
          glonass_draconitic = 0.0028300;
          galileo_orbital_freq = 1.7267000;
          galileo_nodal_precession = - 0.0000726;
          galileo_ground_repeat = 0.1015706;
          galileo_sun_arg_lat = 1.7238896;
          galileo_draconitic = 0.0028104;
          gnss_frequencies = Dict
            [(KStr ''earth'', Dict
               [(KStr ''angular_speed'', num earth_angular_speed),
                (KStr ''orbital_frequency'', num earth_orbital_freq)]),
             (KStr ''gps'', Dict
               [(KStr ''orbital_frequency'', num gps_orbital_freq),
                (KStr ''nodal_precession_frequency'', num gps_nodal_precession),
                (KStr ''ground_repeat_frequency'', num gps_ground_repeat),
                (KStr ''draconitic_frequency'', num gps_draconitic),
                (KStr ''draconitic_harmonics'',
                   int_dict (calculate_draconitic_harmonics gps_draconitic 15)),
                (KStr ''orbital_signals'', Dict [])]),
             (KStr ''glonass'', Dict
               [(KStr ''orbital_frequency'', num glonass_orbital_freq),
                (KStr ''nodal_precession_frequency'', num glonass_nodal_precession),
                (KStr ''ground_repeat_frequency'', num glonass_ground_repeat),
                (KStr ''sun_arg_lat_frequency'', num glonass_sun_arg_lat),
                (KStr ''draconitic_frequency'', num glonass_draconitic),
                (KStr ''draconitic_harmonics'',
                   int_dict (calculate_draconitic_harmonics glonass_draconitic 15)),
                (KStr ''orbital_peaks'',
                   peaks_dict (calculate_orbital_peaks glonass_sun_arg_lat glonass_draconitic
                     default_harmonics_range)),
                (KStr ''orbital_signals'', Dict [])]),
             (KStr ''galileo'', Dict
               [(KStr ''orbital_frequency'', num galileo_orbital_freq),
                (KStr ''nodal_precession_frequency'', num galileo_nodal_precession),
                (KStr ''ground_repeat_frequency'', num galileo_ground_repeat),
                (KStr ''sun_arg_lat_frequency'', num galileo_sun_arg_lat),
                (KStr ''draconitic_frequency'', num galileo_draconitic),
                (KStr ''draconitic_harmonics'',
                   int_dict (calculate_draconitic_harmonics galileo_draconitic 15)),
                (KStr ''orbital_peaks'',
                   peaks_dict (calculate_orbital_peaks galileo_sun_arg_lat galileo_draconitic
                     default_harmonics_range)),
                (KStr ''orbital_signals'', Dict [])]),
             (KStr ''tides'', real_dict tides),
             (KStr ''annual'', int_dict (calculate_annual_harmonics earth_orbital_freq 12)),
             (KStr ''aliases'', Dict [])];
          aliases =
            fold (alias_step gps_ground_repeat galileo_ground_repeat glonass_ground_repeat)
              tides []
      in case setitem gnss_frequencies (KStr ''aliases'') (Dict aliases) of
           Inl e \<Rightarrow> Inl e
         | Inr gnss_frequencies \<Rightarrow>
             (case calculate_orbital_signals_table of
                Inl e \<Rightarrow> Inl e
              | Inr orbital_signals \<Rightarrow>
                  attach_all (Dict orbital_signals) [''gps'', ''glonass'', ''galileo'']
                    gnss_frequencies))"

subsection \<open>Reading the catalogue\<close>

text \<open>Every float stored in a value is non-negative (\<^verbatim>\<open>inf\<close> counts as such).\<close>

definition nonneg_val :: "pyval \<Rightarrow> bool" where
  "nonneg_val v = (\<forall>px \<in> set (leaves v). pf_le (Fin 0) (snd px))"

text \<open>
  The catalogue that \<open>create_gnss_frequencies\<close> returns, given the three tables of orbital
  signals (\<open>catalogue_shape\<close> below).
\<close>

definition catalogue_with :: "(pykey \<times> pyval) list \<Rightarrow> (pykey \<times> pyval) list \<Rightarrow> (pykey \<times> pyval) list \<Rightarrow> pyval" where
  "catalogue_with sg sl sa = Dict
            [(KStr ''earth'', Dict
               [(KStr ''angular_speed'', num 1.0027378),
                (KStr ''orbital_frequency'', num 0.0027378)]),
             (KStr ''gps'', Dict
               [(KStr ''orbital_frequency'', num 2.0057014),
                (KStr ''nodal_precession_frequency'', num (- 0.0001075)),
                (KStr ''ground_repeat_frequency'', num 1.0028507),
                (KStr ''draconitic_frequency'', num 0.0028453),
                (KStr ''draconitic_harmonics'',
                   int_dict (calculate_draconitic_harmonics 0.0028453 15)),
                (KStr ''orbital_signals'', Dict sg)]),
             (KStr ''glonass'', Dict
               [(KStr ''orbital_frequency'', num 2.1310182),
                (KStr ''nodal_precession_frequency'', num (- 0.0000922)),
                (KStr ''ground_repeat_frequency'', num 0.1253540),
                (KStr ''sun_arg_lat_frequency'', num 2.1281882),
                (KStr ''draconitic_frequency'', num 0.0028300),
                (KStr ''draconitic_harmonics'',
                   int_dict (calculate_draconitic_harmonics 0.0028300 15)),
                (KStr ''orbital_peaks'',
                   peaks_dict (calculate_orbital_peaks 2.1281882 0.0028300
                     default_harmonics_range)),
                (KStr ''orbital_signals'', Dict sl)]),
             (KStr ''galileo'', Dict
               [(KStr ''orbital_frequency'', num 1.7267000),
                (KStr ''nodal_precession_frequency'', num (- 0.0000726)),
                (KStr ''ground_repeat_frequency'', num 0.1015706),
                (KStr ''sun_arg_lat_frequency'', num 1.7238896),
                (KStr ''draconitic_frequency'', num 0.0028104),
                (KStr ''draconitic_harmonics'',
                   int_dict (calculate_draconitic_harmonics 0.0028104 15)),
                (KStr ''orbital_peaks'',
                   peaks_dict (calculate_orbital_peaks 1.7238896 0.0028104
                     default_harmonics_range)),
                (KStr ''orbital_signals'', Dict sa)]),
             (KStr ''tides'', real_dict tides),
             (KStr ''annual'', int_dict (calculate_annual_harmonics 0.0027378 12)),
             (KStr ''aliases'', Dict (fold (alias_step 1.0028507 0.1015706 0.1253540) tides []))]"

text \<open>\<^verbatim>\<open>create_gnss_frequencies()[k1][k2]...\<close> for a list of keys.\<close>

definition catalogue_lookup :: "pykey list \<Rightarrow> error + pyval" where
  "catalogue_lookup path =
     (case create_gnss_frequencies of Inl e \<Rightarrow> Inl e | Inr c \<Rightarrow> getpath c path)"

text \<open>The negative floats of a value, each with its path.\<close>

definition neg_leaves :: "pyval \<Rightarrow> (pykey list \<times> pyfloat) set" where
  "neg_leaves v = {px \<in> set (leaves v). \<not> pf_le (Fin 0) (snd px)}"

section \<open>Rounding\<close>

lemma py_round_dist: "\<bar>x - of_int (py_round x)\<bar> \<le> 1 / 2"
  unfolding py_round_def Let_def by (auto; linarith)

lemma py_round_tie_even: "\<bar>x - of_int (py_round x)\<bar> = 1 / 2 \<Longrightarrow> even (py_round x)"
  unfolding py_round_def Let_def by (auto split: if_splits; linarith)

lemma floor_half_cases:
  fixes f :: real
  shows "\<lfloor>f + 1 / 2\<rfloor> = (if f - of_int \<lfloor>f\<rfloor> < 1 / 2 then \<lfloor>f\<rfloor> else \<lfloor>f\<rfloor> + 1)"
proof (cases "f - of_int \<lfloor>f\<rfloor> < 1 / 2")
  case True
  have "\<lfloor>f + 1 / 2\<rfloor> = \<lfloor>f\<rfloor>"
    by (rule floor_unique) (use True in linarith)+
  with True show ?thesis by simp
next
  case False
  have "\<lfloor>f + 1 / 2\<rfloor> = \<lfloor>f\<rfloor> + 1"
    by (rule floor_unique) (use False in \<open>simp; linarith\<close>)+
  with False show ?thesis by simp
qed

lemma alias_one_eq_floor: "\<bar>f - of_int (py_round f)\<bar> = \<bar>f - of_int \<lfloor>f + 1 / 2\<rfloor>\<bar>"
  unfolding floor_half_cases py_round_def Let_def
  by (auto; linarith)

section \<open>Binary64 rounding\<close>

lemma pow2_powr: "pow2 e = 2 powr (of_int e)"
  by (simp add: pow2_def powr_int)

lemma pow2_pos: "0 < pow2 e"
  by (simp add: pow2_powr)

lemma pow2_add: "pow2 (a + b) = pow2 a * pow2 b"
  by (simp add: pow2_powr powr_add)

lemma pow2_mono: "a \<le> b \<Longrightarrow> pow2 a \<le> pow2 b"
  by (simp add: pow2_powr)

lemma pow2_less_iff: "pow2 a < pow2 b \<longleftrightarrow> a < b"
  by (simp add: pow2_powr)

lemma pow2_le_iff: "pow2 a \<le> pow2 b \<longleftrightarrow> a \<le> b"
  by (simp add: pow2_powr)

lemma expo_search_range: "- 1022 \<le> expo_search a n \<and> expo_search a n \<le> int n - 1022"
  by (induction n) auto

lemma expo_search_found: "expo_search a n = - 1022 \<or> pow2 (expo_search a n) \<le> a"
  by (induction n) auto

lemma expo_search_greatest:
  "- 1022 \<le> e \<Longrightarrow> e \<le> int n - 1022 \<Longrightarrow> pow2 e \<le> a \<Longrightarrow> e \<le> expo_search a n"
proof (induction n)
  case 0
  then show ?case by simp
next
  case (Suc n)
  show ?case
  proof (cases "pow2 (int (Suc n) - 1022) \<le> a")
    case True
    with Suc.prems show ?thesis by simp
  next
    case False
    with Suc.prems(3) have "pow2 e < pow2 (int (Suc n) - 1022)" by linarith
    then have "e < int (Suc n) - 1022" by (simp only: pow2_less_iff)
    with Suc.prems(1,3) have "e \<le> expo_search a n" by (intro Suc.IH) simp_all
    with False show ?thesis by simp
  qed
qed

lemma expo_le_max: "expo x \<le> 1024"
  using expo_search_range [of "\<bar>x\<bar>" 2046] by (simp add: expo_def)

lemma expo_found: "expo x = - 1022 \<or> pow2 (expo x) \<le> \<bar>x\<bar>"
  using expo_search_found [of "\<bar>x\<bar>" 2046] by (simp add: expo_def)

lemma expo_greatest: "- 1022 \<le> e \<Longrightarrow> e \<le> 1024 \<Longrightarrow> pow2 e \<le> \<bar>x\<bar> \<Longrightarrow> e \<le> expo x"
  using expo_search_greatest [of e 2046 "\<bar>x\<bar>"] by (simp add: expo_def)

lemma expo_lower: "pow2 (- 1022) \<le> \<bar>x\<bar> \<Longrightarrow> pow2 (expo x) \<le> \<bar>x\<bar>"
  using expo_found [of x] by auto

lemma expo_neg: "expo (- x) = expo x"
  by (simp add: expo_def)

lemma expo_le:
  assumes "\<bar>x\<bar> \<le> pow2 k" "- 1022 \<le> k"
  shows "expo x \<le> k"
proof -
  from expo_found [of x] show ?thesis
  proof
    assume "expo x = - 1022"
    with assms(2) show ?thesis by simp
  next
    assume "pow2 (expo x) \<le> \<bar>x\<bar>"
    with assms(1) have "pow2 (expo x) \<le> pow2 k" by linarith
    then show ?thesis by (simp only: pow2_le_iff)
  qed
qed

lemma expo_normal:
  assumes "pow2 e \<le> \<bar>x\<bar>" "\<bar>x\<bar> < pow2 (e + 1)" "- 1022 \<le> e" "e \<le> 1024"
  shows "expo x = e"
proof -
  have ge: "e \<le> expo x" by (rule expo_greatest [OF assms(3,4,1)])
  have "pow2 (- 1022) \<le> pow2 e" by (rule pow2_mono [OF assms(3)])
  with assms(1) have "pow2 (- 1022) \<le> \<bar>x\<bar>" by linarith
  from expo_lower [OF this] assms(2) have "pow2 (expo x) < pow2 (e + 1)" by linarith
  then have "expo x < e + 1" by (simp only: pow2_less_iff)
  with ge show ?thesis by linarith
qed

lemma rd_normal:
  assumes "pow2 e \<le> \<bar>x\<bar>" "\<bar>x\<bar> < pow2 (e + 1)" "- 1022 \<le> e" "e \<le> 1024"
  shows "rd x =
     (let q = pow2 (e - 52); y = of_int (py_round (x / q)) * q
      in if 2 ^ 1024 \<le> \<bar>y\<bar> then (if 0 < x then PosInf else NegInf) else Finite y)"
proof -
  from assms(1) pow2_pos [of e] have "x \<noteq> 0" by auto
  then show ?thesis
    by (simp add: rd_def expo_normal [OF assms])
qed

lemma rd_zero: "rd 0 = Finite 0"
  by (simp add: rd_def)

lemma rd_one: "rd 1 = Finite 1"
  by (subst rd_normal [of 0]) (simp_all add: pow2_def py_round_def Let_def)

lemma py_round_of_int: "py_round (of_int k) = k"
  by (simp add: py_round_def)

lemma py_round_le_int: "x \<le> of_int N \<Longrightarrow> py_round x \<le> N"
  unfolding py_round_def Let_def by (auto; linarith)

lemma py_round_ge_int: "of_int N \<le> x \<Longrightarrow> N \<le> py_round x"
  unfolding py_round_def Let_def by (auto; linarith)

lemma py_round_abs_le: "\<bar>x\<bar> \<le> of_int N \<Longrightarrow> \<bar>py_round x\<bar> \<le> N"
proof -
  assume a: "\<bar>x\<bar> \<le> of_int N"
  then have "x \<le> of_int N" and "of_int (- N) \<le> x" by (simp_all add: abs_le_iff)
  from py_round_le_int [OF this(1)] py_round_ge_int [OF this(2)] show ?thesis by linarith
qed

lemma py_round_neg: "py_round (- x) = - py_round x"
proof -
  have d1: "\<bar>- x - of_int (py_round (- x))\<bar> \<le> 1 / 2" by (rule py_round_dist)
  have d2: "\<bar>x - of_int (py_round x)\<bar> \<le> 1 / 2" by (rule py_round_dist)
  show ?thesis
  proof (rule ccontr)
    assume ne: "py_round (- x) \<noteq> - py_round x"
    let ?a = "py_round (- x)" and ?b = "- py_round x"
    have "(of_int ?b :: real) = - of_int (py_round x)" by simp
    with d1 d2 have "\<bar>of_int ?a - (of_int ?b :: real)\<bar> \<le> 1" by linarith
    then have "\<bar>?a - ?b\<bar> \<le> 1" by linarith
    with ne consider (up) "?a = ?b + 1" | (down) "?a = ?b - 1" by linarith
    then show False
    proof cases
      case up
      then have r: "(of_int ?a :: real) = - of_int (py_round x) + 1" by simp
      from r d1 d2 have t1: "\<bar>- x - of_int ?a\<bar> = 1 / 2" by linarith
      from r d1 d2 have t2: "\<bar>x - of_int (py_round x)\<bar> = 1 / 2" by linarith
      from py_round_tie_even [OF t1] py_round_tie_even [OF t2] up show False
        by auto
    next
      case down
      then have r: "(of_int ?a :: real) = - of_int (py_round x) - 1" by simp
      from r d1 d2 have t1: "\<bar>- x - of_int ?a\<bar> = 1 / 2" by linarith
      from r d1 d2 have t2: "\<bar>x - of_int (py_round x)\<bar> = 1 / 2" by linarith
      from py_round_tie_even [OF t1] py_round_tie_even [OF t2] down show False
        by auto
    qed
  qed
qed

lemma rd_cases:
  assumes "x \<noteq> 0"
  shows "rd x = (if 2 ^ 1024 \<le> \<bar>of_int (py_round (x / pow2 (expo x - 52))) * pow2 (expo x - 52)\<bar>
                 then (if 0 < x then PosInf else NegInf)
                 else Finite (of_int (py_round (x / pow2 (expo x - 52))) * pow2 (expo x - 52)))"
  using assms by (simp add: rd_def Let_def)

lemma rd_le_pow2:
  assumes "\<bar>x\<bar> \<le> pow2 k" "- 1022 \<le> k" "k \<le> 1023"
  shows "\<exists>y. rd x = Finite y \<and> \<bar>y\<bar> \<le> pow2 k"
proof (cases "x = 0")
  case True
  then show ?thesis using pow2_pos [of k] by (simp add: rd_def less_imp_le)
next
  case False
  let ?e = "expo x"
  let ?q = "pow2 (?e - 52)"
  let ?m = "py_round (x / ?q)"
  have ek: "?e \<le> k" by (rule expo_le [OF assms(1,2)])
  define N :: int where "N = 2 ^ nat (k - ?e + 52)"
  have N: "of_int N = pow2 (k - ?e + 52)"
    using ek by (simp add: N_def pow2_def)
  have split: "pow2 k = of_int N * ?q"
    unfolding N using pow2_add [of "k - ?e + 52" "?e - 52"] by simp
  have "\<bar>x / ?q\<bar> \<le> of_int N"
    using assms(1) pow2_pos [of "?e - 52"] by (simp add: split abs_divide divide_le_eq abs_of_pos)
  then have "\<bar>?m\<bar> \<le> N" by (rule py_round_abs_le)
  then have "\<bar>of_int ?m :: real\<bar> \<le> of_int N"
    by (metis of_int_abs of_int_le_iff)
  then have "\<bar>of_int ?m * ?q\<bar> \<le> of_int N * ?q"
    using pow2_pos [of "?e - 52"] by (simp add: abs_mult abs_of_pos)
  then have le: "\<bar>of_int ?m * ?q\<bar> \<le> pow2 k" by (simp add: split)
  have "pow2 k \<le> pow2 1023" by (rule pow2_mono [OF assms(3)])
  also have "\<dots> < 2 ^ 1024" by (simp add: pow2_def)
  finally have "\<bar>of_int ?m * ?q\<bar> < 2 ^ 1024" using le by linarith
  then show ?thesis
    using le by (simp add: rd_cases [OF False])
qed

lemma rd_finite_bound: "rd x = Finite y \<Longrightarrow> \<bar>y\<bar> < 2 ^ 1024"
  by (cases "x = 0") (auto simp: rd_def Let_def split: if_splits)

lemma rd_neg:
  "rd (- x) = (case rd x of Finite y \<Rightarrow> Finite (- y) | PosInf \<Rightarrow> NegInf | NegInf \<Rightarrow> PosInf
               | NaN \<Rightarrow> NaN)"
proof (cases "x = 0")
  case True
  then show ?thesis by (simp add: rd_def)
next
  case False
  then have "- x \<noteq> 0" by simp
  have m: "py_round (- x / pow2 (expo x - 52)) = - py_round (x / pow2 (expo x - 52))"
    using py_round_neg [of "x / pow2 (expo x - 52)"] by simp
  show ?thesis
    unfolding rd_cases [OF False] rd_cases [OF \<open>- x \<noteq> 0\<close>] expo_neg m
    using False by (auto simp: abs_mult)
qed

lemma rd_rel:
  assumes "pow2 (- 1022) \<le> \<bar>x\<bar>" "\<bar>x\<bar> \<le> pow2 1023"
  shows "\<exists>y. rd x = Finite y \<and> \<bar>y - x\<bar> \<le> \<bar>x\<bar> / 2 ^ 53"
proof -
  from assms(1) pow2_pos [of "- 1022"] have nz: "x \<noteq> 0" by auto
  let ?q = "pow2 (expo x - 52)"
  let ?m = "py_round (x / ?q)"
  have q: "0 < ?q" by (rule pow2_pos)
  have "pow2 (expo x) \<le> \<bar>x\<bar>"
    by (rule expo_lower [OF assms(1)])
  moreover have "pow2 (expo x) = ?q * 2 ^ 52"
    using pow2_add [of "expo x - 52" 52] by (simp add: pow2_def)
  ultimately have qx: "?q * 2 ^ 52 \<le> \<bar>x\<bar>" by simp
  from rd_le_pow2 [OF assms(2)] obtain y where y: "rd x = Finite y" by auto
  with rd_cases [OF nz] have yv: "y = of_int ?m * ?q"
    by (simp split: if_splits)
  have "\<bar>x / ?q - of_int ?m\<bar> \<le> 1 / 2" by (rule py_round_dist)
  then have "\<bar>x / ?q - of_int ?m\<bar> * ?q \<le> 1 / 2 * ?q"
    using q by (intro mult_right_mono) simp_all
  moreover have "\<bar>x / ?q - of_int ?m\<bar> * ?q = \<bar>x - of_int ?m * ?q\<bar>"
  proof -
    have "\<bar>x / ?q - of_int ?m\<bar> * ?q = \<bar>(x / ?q - of_int ?m) * ?q\<bar>"
      using q by (simp add: abs_mult abs_of_pos)
    also have "(x / ?q - of_int ?m) * ?q = x - of_int ?m * ?q"
      using q by (simp add: field_simps)
    finally show ?thesis .
  qed
  ultimately have "\<bar>x - of_int ?m * ?q\<bar> \<le> ?q / 2" by simp
  also have "?q / 2 \<le> \<bar>x\<bar> / 2 ^ 53"
    using qx by simp
  finally have "\<bar>y - x\<bar> \<le> \<bar>x\<bar> / 2 ^ 53"
    unfolding yv by (simp add: abs_minus_commute)
  with y show ?thesis by blast
qed

lemma rd_nonzero:
  assumes "pow2 (- 1074) \<le> \<bar>x\<bar>"
  shows "rd x \<noteq> Finite 0"
proof -
  from assms pow2_pos [of "- 1074"] have nz: "x \<noteq> 0" by auto
  let ?q = "pow2 (expo x - 52)"
  let ?m = "py_round (x / ?q)"
  have q: "0 < ?q" by (rule pow2_pos)
  have qx: "?q \<le> \<bar>x\<bar>"
  proof (cases "expo x = - 1022")
    case True
    with assms show ?thesis by simp
  next
    case False
    with expo_found [of x] have lower: "pow2 (expo x) \<le> \<bar>x\<bar>" by blast
    have "?q \<le> pow2 (expo x)" by (rule pow2_mono) simp
    also note lower
    finally show ?thesis .
  qed
  have "?m \<noteq> 0"
  proof (cases "0 < x")
    case True
    with qx q have "of_int 1 \<le> x / ?q" by (simp add: le_divide_eq)
    from py_round_ge_int [OF this] show ?thesis by simp
  next
    case False
    with nz qx q have "x / ?q \<le> of_int (- 1)" by (simp add: divide_le_eq)
    from py_round_le_int [OF this] show ?thesis by simp
  qed
  with q have "of_int ?m * ?q \<noteq> 0" by simp
  then show ?thesis
    unfolding rd_cases [OF nz] by simp
qed

lemma rd_int:
  assumes "\<bar>n\<bar> \<le> 2 ^ 53"
  shows "rd (of_int n) = Finite (of_int n)"
proof (cases "n = 0")
  case True
  then show ?thesis by (simp add: rd_def)
next
  case False
  let ?x = "of_int n :: real"
  from False have nz: "?x \<noteq> 0" by simp
  let ?e = "expo ?x"
  have "\<bar>?x\<bar> \<le> pow2 53"
    using assms by (simp add: pow2_def)
  then have e53: "?e \<le> 53" by (intro expo_le) simp_all
  from rd_le_pow2 [OF \<open>\<bar>?x\<bar> \<le> pow2 53\<close>] obtain y where y: "rd ?x = Finite y" by auto
  with rd_cases [OF nz] have yv: "y = of_int (py_round (?x / pow2 (?e - 52))) * pow2 (?e - 52)"
    by (simp split: if_splits)
  show ?thesis
  proof (cases "?e \<le> 52")
    case True
    then have p: "pow2 (?e - 52) = 1 / 2 ^ nat (52 - ?e)"
      by (cases "?e = 52") (simp_all add: pow2_def)
    have "?x / pow2 (?e - 52) = of_int (n * 2 ^ nat (52 - ?e))"
      by (simp add: p)
    then have "py_round (?x / pow2 (?e - 52)) = n * 2 ^ nat (52 - ?e)"
      by (simp only: py_round_of_int)
    then have "y = ?x" unfolding yv by (simp add: p)
    with y show ?thesis by simp
  next
    case False
    with e53 have e: "?e = 53" by simp
    have "pow2 53 \<le> \<bar>?x\<bar>"
      using expo_found [of ?x] e by simp
    with \<open>\<bar>?x\<bar> \<le> pow2 53\<close> have "\<bar>?x\<bar> = 2 ^ 53" by (simp add: pow2_def)
    then have xc: "?x = 2 ^ 53 \<or> ?x = - (2 ^ 53)" by linarith
    have qv: "pow2 (?e - 52) = 2" unfolding e by (simp add: pow2_def)
    have yv2: "y = of_int (py_round (?x / 2)) * 2" unfolding yv qv ..
    from xc show ?thesis
    proof
      assume x: "?x = 2 ^ 53"
      have "py_round (2 ^ 53 / 2) = 2 ^ 52" using py_round_of_int [of "2 ^ 52"] by simp
      then have "y = ?x" unfolding yv2 x by simp
      with y show ?thesis by simp
    next
      assume x: "?x = - (2 ^ 53)"
      have "py_round (- (2 ^ 53) / 2) = - (2 ^ 52)" using py_round_of_int [of "- (2 ^ 52)"] by simp
      then have "y = ?x" unfolding yv2 x by simp
      with y show ?thesis by simp
    qed
  qed
qed

lemma rd_overflow:
  assumes "2 ^ 1024 \<le> x"
  shows "rd x = PosInf"
proof -
  have p1024: "pow2 1024 = 2 ^ 1024" by (simp add: pow2_def)
  from assms have xpos: "0 < x" by (smt (verit) zero_less_power)
  have ax: "pow2 1024 \<le> \<bar>x\<bar>" using assms xpos by (simp add: p1024)
  have "1024 \<le> expo x" by (rule expo_greatest [OF _ _ ax]) simp_all
  with expo_le_max [of x] have e: "expo x = 1024" by linarith
  define q where "q = pow2 (expo x - 52)"
  have qpos: "0 < q" by (simp add: q_def pow2_pos)
  have split: "(2::real) ^ 1024 = of_int (2 ^ 52) * q"
    by (simp add: q_def e pow2_def)
  have "of_int (2 ^ 52) * q \<le> x" using assms by (simp only: split)
  then have "of_int (2 ^ 52) \<le> x / q" using qpos by (simp add: le_divide_eq)
  then have "2 ^ 52 \<le> py_round (x / q)" by (rule py_round_ge_int)
  then have "(of_int (2 ^ 52) :: real) \<le> of_int (py_round (x / q))"
    by (simp only: of_int_le_iff)
  then have "of_int (2 ^ 52) * q \<le> of_int (py_round (x / q)) * q"
    using qpos by (intro mult_right_mono) simp_all
  then have "(2 ^ 1024 :: real) \<le> of_int (py_round (x / q)) * q"
    by (simp only: split)
  then have big: "(2 ^ 1024 :: real) \<le> \<bar>of_int (py_round (x / q)) * q\<bar>"
    by linarith
  from xpos have "x \<noteq> 0" by simp
  then have "rd x = (if 2 ^ 1024 \<le> \<bar>of_int (py_round (x / q)) * q\<bar>
                 then (if 0 < x then PosInf else NegInf)
                 else Finite (of_int (py_round (x / q)) * q))"
    unfolding q_def by (rule rd_cases)
  also have "\<dots> = PosInf" using big xpos by (simp only: if_True)
  finally show ?thesis .
qed

lemma int_to_f64_exact: "\<bar>n\<bar> \<le> 2 ^ 53 \<Longrightarrow> int_to_f64 n = Inr (Finite (of_int n))"
  by (simp add: int_to_f64_def rd_int)

lemma double_int:
  assumes "rd f = Finite f" "2 ^ 52 \<le> \<bar>f\<bar>"
  shows "\<exists>n::int. f = of_int n"
proof -
  from assms(2) have nz: "f \<noteq> 0" by (smt (verit) zero_less_power abs_zero)
  have "pow2 52 \<le> \<bar>f\<bar>" using assms(2) by (simp add: pow2_def)
  then have e: "52 \<le> expo f" by (intro expo_greatest) simp_all
  define j where "j = nat (expo f - 52)"
  have q: "pow2 (expo f - 52) = of_int (2 ^ j)"
    using e by (simp add: pow2_def j_def)
  from assms(1) have "f = of_int (py_round (f / pow2 (expo f - 52))) * pow2 (expo f - 52)"
    unfolding rd_cases [OF nz] by (simp split: if_splits)
  then have "f = of_int (py_round (f / pow2 (expo f - 52)) * 2 ^ j)"
    by (simp only: q of_int_mult)
  then show ?thesis ..
qed

lemma rd_py_round_double:
  assumes "rd f = Finite f"
  shows "rd (of_int (py_round f)) = Finite (of_int (py_round f))"
proof (cases "\<bar>f\<bar> \<le> 2 ^ 52")
  case True
  then have "\<bar>f\<bar> \<le> of_int (2 ^ 52)" by simp
  then have "\<bar>py_round f\<bar> \<le> 2 ^ 52" by (rule py_round_abs_le)
  then have "\<bar>py_round f\<bar> \<le> 2 ^ 53" by simp
  then show ?thesis by (rule rd_int)
next
  case False
  then have "2 ^ 52 \<le> \<bar>f\<bar>" by simp
  from double_int [OF assms this] obtain n :: int where n: "f = of_int n" ..
  with assms show ?thesis by (simp add: py_round_of_int)
qed

lemma rd_floor_half_double:
  assumes "rd f = Finite f"
  shows "rd (of_int \<lfloor>f + 1 / 2\<rfloor>) = Finite (of_int \<lfloor>f + 1 / 2\<rfloor>)"
proof (cases "\<bar>f\<bar> \<le> 2 ^ 52")
  case True
  have "\<lfloor>f + 1 / 2\<rfloor> \<le> 2 ^ 52"
  proof -
    have "f + 1 / 2 < of_int (2 ^ 52 + 1)" using True by simp
    then have "\<lfloor>f + 1 / 2\<rfloor> < 2 ^ 52 + 1" by (simp only: floor_less_iff)
    then show ?thesis by simp
  qed
  moreover have "- (2 ^ 52) \<le> \<lfloor>f + 1 / 2\<rfloor>"
  proof -
    have "of_int (- (2 ^ 52)) \<le> f + 1 / 2" using True by simp
    then show ?thesis by (simp only: le_floor_iff)
  qed
  moreover have "(2::int) ^ 52 \<le> 2 ^ 53" by simp
  ultimately have "\<bar>\<lfloor>f + 1 / 2\<rfloor>\<bar> \<le> 2 ^ 53" by linarith
  then show ?thesis by (rule rd_int)
next
  case False
  then have "2 ^ 52 \<le> \<bar>f\<bar>" by simp
  from double_int [OF assms this] obtain n :: int where n: "f = of_int n" ..
  have "\<lfloor>of_int n + 1 / 2 :: real\<rfloor> = n" by linarith
  with assms n show ?thesis by simp
qed

lemma f64_abs_rd_neg: "f64_abs (rd (- x)) = f64_abs (rd x)"
  by (simp add: rd_neg split: f64.split)

lemma f64_abs_rd_cong: "\<bar>a\<bar> = \<bar>b\<bar> \<Longrightarrow> f64_abs (rd a) = f64_abs (rd b)"
proof -
  assume "\<bar>a\<bar> = \<bar>b\<bar>"
  then have "a = b \<or> a = - b" by linarith
  then show ?thesis using f64_abs_rd_neg [of b] by auto
qed

lemma f64_abs_nonneg: "f64_abs z = Finite a \<Longrightarrow> 0 \<le> a"
  by (cases z) auto

lemma f64_add_finite:
  "f64_add a b = Finite d \<Longrightarrow> \<exists>x y. a = Finite x \<and> b = Finite y \<and> rd (x + y) = Finite d"
  by (cases a; cases b) simp_all

text \<open>Some doubles.\<close>

lemma rd_half: "rd (1 / 2) = Finite (1 / 2)"
  by (subst rd_normal [of "- 1"]) (simp_all add: pow2_def py_round_def Let_def)

lemma rd_minus_one: "rd (- 1) = Finite (- 1)"
  using rd_int [of "- 1"] by simp

lemma rd_three: "rd 3 = Finite 3"
  using rd_int [of 3] by simp

lemma rd_eight: "rd 8 = Finite 8"
  using rd_int [of 8] by simp

lemma rd_threshold: "rd (1 / 10 ^ 10) = Finite (7737125245533627 / 2 ^ 86)"
  by (subst rd_normal [of "- 34"]) (simp_all add: pow2_def py_round_def Let_def)

section \<open>Unit conversion: the round trip\<close>

lemma rd_third: "rd (1 / 3) = Finite (6004799503160661 / 2 ^ 54)"
  by (subst rd_normal [of "- 2"]) (simp_all add: pow2_def py_round_def Let_def)

lemma rd_inv_third: "rd (1 / (6004799503160661 / 2 ^ 54)) = Finite 3"
  by (subst rd_normal [of 1]) (simp_all add: pow2_def py_round_def Let_def)

lemma rd_inv_11619: "rd (1 / 11619) = Finite (6350544478426561 / 2 ^ 66)"
  by (subst rd_normal [of "- 14"]) (simp_all add: pow2_def py_round_def Let_def)

lemma rd_inv_inv_11619: "rd (1 / (6350544478426561 / 2 ^ 66)) = Finite (11619 - 1 / 2 ^ 39)"
  by (subst rd_normal [of 13]) (simp_all add: pow2_def py_round_def Let_def)

text \<open>
  C8, amended. On binary64 the round trip \<open>days_to_cpd(cpd_to_days(f))\<close> is neither exact
  nor within an absolute tolerance. For every frequency \<open>f\<close> with
  \<open>2^-1021 \<le> f \<le> 2^1021\<close> both conversions return a finite value, and the round trip
  returns \<open>r\<close> with \<open>|r - f| \<le> f / 2^51\<close>, a relative error of at most \<open>4.5e-16\<close>. At zero
  both conversions return \<open>+inf\<close>.
\<close>

theorem unit_conversion_round_trip_relative:
  "(1 / 2 ^ 1021 \<le> f \<and> f \<le> 2 ^ 1021 \<longrightarrow>
      (\<exists>p r. cpd_to_days (Finite f) = Inr (Finite p) \<and> days_to_cpd (Finite p) = Inr (Finite r)
          \<and> \<bar>r - f\<bar> \<le> f / 2 ^ 51))
   \<and> cpd_to_days (Finite 0) = Inr PosInf \<and> days_to_cpd (Finite 0) = Inr PosInf"
proof -
  have trip: "\<exists>p r. cpd_to_days (Finite f) = Inr (Finite p) \<and> days_to_cpd (Finite p) = Inr (Finite r)
          \<and> \<bar>r - f\<bar> \<le> f / 2 ^ 51"
    if lo: "1 / 2 ^ 1021 \<le> f" and hi: "f \<le> 2 ^ 1021"
  proof -
    define u :: real where "u = 1 / 2 ^ 53"
    have u: "0 < u" "u \<le> 1 / 2" by (simp_all add: u_def)
    from lo have fpos: "0 < f" by (smt (verit) zero_less_power divide_pos_pos)
    have lo': "pow2 (- 1021) \<le> f" using lo by (simp add: pow2_def)
    have hi': "f \<le> pow2 1021" using hi by (simp add: pow2_def)
    have inv1: "1 / pow2 1021 = pow2 (- 1021)" by (simp add: pow2_def)
    have inv2: "1 / pow2 (- 1021) = pow2 1021" by (simp add: pow2_def)
    have dbl: "2 * pow2 1021 = pow2 1022" by (simp add: pow2_def)
    have hlf: "pow2 (- 1021) / 2 = pow2 (- 1022)" by (simp add: pow2_def)
    have x1lo: "pow2 (- 1022) \<le> \<bar>1 / f\<bar>"
    proof -
      have "pow2 (- 1022) \<le> pow2 (- 1021)" by (rule pow2_mono) simp
      also have "\<dots> = 1 / pow2 1021" by (rule inv1 [symmetric])
      also have "\<dots> \<le> 1 / f"
        using hi' fpos by (intro divide_left_mono mult_pos_pos pow2_pos) simp_all
      also have "\<dots> = \<bar>1 / f\<bar>" using fpos by simp
      finally show ?thesis .
    qed
    have x1hi: "\<bar>1 / f\<bar> \<le> pow2 1023"
    proof -
      have "\<bar>1 / f\<bar> = 1 / f" using fpos by simp
      also have "\<dots> \<le> 1 / pow2 (- 1021)"
        using lo' fpos by (intro divide_left_mono mult_pos_pos pow2_pos) simp_all
      also have "\<dots> = pow2 1021" by (rule inv2)
      also have "\<dots> \<le> pow2 1023" by (rule pow2_mono) simp
      finally show ?thesis .
    qed
    from rd_rel [OF x1lo x1hi] obtain p where p: "rd (1 / f) = Finite p"
      and perr: "\<bar>p - 1 / f\<bar> \<le> \<bar>1 / f\<bar> / 2 ^ 53" by blast
    define t where "t = p * f"
    have "\<bar>p - 1 / f\<bar> * f \<le> (\<bar>1 / f\<bar> / 2 ^ 53) * f"
      using perr fpos by (intro mult_right_mono) simp_all
    moreover have "\<bar>p - 1 / f\<bar> * f = \<bar>t - 1\<bar>"
    proof -
      have "\<bar>p - 1 / f\<bar> * f = \<bar>(p - 1 / f) * f\<bar>" using fpos by (simp add: abs_mult)
      also have "(p - 1 / f) * f = t - 1" using fpos by (simp add: t_def field_simps)
      finally show ?thesis .
    qed
    moreover have "(\<bar>1 / f\<bar> / 2 ^ 53) * f = u" using fpos by (simp add: u_def)
    ultimately have terr: "\<bar>t - 1\<bar> \<le> u" by simp
    with u have tlo: "1 / 2 \<le> t" and thi: "t \<le> 3 / 2" by linarith+
    then have tpos: "0 < t" by linarith
    with fpos have ppos: "0 < p" by (simp add: t_def zero_less_mult_iff)
    have inv: "1 / p = f / t" using fpos ppos by (simp add: t_def)
    have ft: "f / t \<le> 2 * f"
    proof -
      have "f / t \<le> f / (1 / 2)"
        using tlo fpos by (intro divide_left_mono) simp_all
      then show ?thesis by simp
    qed
    have ft2: "f / 2 \<le> f / t"
    proof -
      have "f / 2 \<le> f / t"
        using thi tpos fpos by (intro divide_left_mono) simp_all
      then show ?thesis .
    qed
    have x2lo: "pow2 (- 1022) \<le> \<bar>1 / p\<bar>"
    proof -
      have "pow2 (- 1022) = pow2 (- 1021) / 2" by (rule hlf [symmetric])
      also have "\<dots> \<le> f / 2" using lo' by simp
      also have "\<dots> \<le> f / t" by (rule ft2)
      also have "\<dots> = \<bar>1 / p\<bar>" using ppos by (simp add: inv [symmetric])
      finally show ?thesis .
    qed
    have x2hi: "\<bar>1 / p\<bar> \<le> pow2 1023"
    proof -
      have "\<bar>1 / p\<bar> = f / t" using ppos by (simp add: inv [symmetric])
      also have "\<dots> \<le> 2 * f" by (rule ft)
      also have "\<dots> \<le> 2 * pow2 1021" using hi' by simp
      also have "\<dots> = pow2 1022" by (rule dbl)
      also have "\<dots> \<le> pow2 1023" by (rule pow2_mono) simp
      finally show ?thesis .
    qed
    from rd_rel [OF x2lo x2hi] obtain r where r: "rd (1 / p) = Finite r"
      and rerr: "\<bar>r - 1 / p\<bar> \<le> \<bar>1 / p\<bar> / 2 ^ 53" by blast
    have e1: "\<bar>r - f / t\<bar> \<le> u * (2 * f)"
    proof -
      have "\<bar>r - f / t\<bar> \<le> (f / t) * u"
        using rerr ppos fpos tpos by (simp add: inv u_def)
      also have "\<dots> \<le> (2 * f) * u"
        using ft u by (intro mult_right_mono) simp_all
      finally show ?thesis by (simp add: mult.commute)
    qed
    have e2: "\<bar>f / t - f\<bar> \<le> u * (2 * f)"
    proof -
      have "f / t - f = (f / t) * (1 - t)" using tpos by (simp add: field_simps)
      then have "\<bar>f / t - f\<bar> = (f / t) * \<bar>1 - t\<bar>"
        using fpos tpos by (simp add: abs_mult)
      also have "\<dots> \<le> (2 * f) * u"
      proof (rule mult_mono)
        show "f / t \<le> 2 * f" by (rule ft)
        show "\<bar>1 - t\<bar> \<le> u" using terr by (simp add: abs_minus_commute)
        show "0 \<le> 2 * f" using fpos by simp
        show "0 \<le> \<bar>1 - t\<bar>" by simp
      qed
      finally show ?thesis by (simp add: mult.commute)
    qed
    have "\<bar>r - f\<bar> \<le> \<bar>r - f / t\<bar> + \<bar>f / t - f\<bar>" by linarith
    also have "\<dots> \<le> u * (2 * f) + u * (2 * f)" using e1 e2 by linarith
    also have "\<dots> = f / 2 ^ 51" by (simp add: u_def)
    finally have bound: "\<bar>r - f\<bar> \<le> f / 2 ^ 51" .
    have c1: "cpd_to_days (Finite f) = Inr (Finite p)"
      using fpos p by (simp add: cpd_to_days_def)
    have c2: "days_to_cpd (Finite p) = Inr (Finite r)"
      using ppos r by (simp add: days_to_cpd_def)
    from c1 c2 bound show ?thesis by blast
  qed
  have "cpd_to_days (Finite 0) = Inr PosInf" "days_to_cpd (Finite 0) = Inr PosInf"
    by (simp_all add: cpd_to_days_def days_to_cpd_def)
  with trip show ?thesis by blast
qed

theorem unit_conversion_round_trip_relative_witness:
  "(1 / 2 ^ 1021 \<le> (3::real) \<and> (3::real) \<le> 2 ^ 1021)
   \<and> cpd_to_days (Finite 3) = Inr (Finite (6004799503160661 / 2 ^ 54))
   \<and> days_to_cpd (Finite (6004799503160661 / 2 ^ 54)) = Inr (Finite 3)
   \<and> \<bar>3 - 3\<bar> \<le> (3 / 2 ^ 51 :: real)"
proof -
  note inst = unit_conversion_round_trip_relative [of 3]
  have a: "cpd_to_days (Finite 3) = Inr (Finite (6004799503160661 / 2 ^ 54))"
    using rd_third by (simp add: cpd_to_days_def)
  have b: "days_to_cpd (Finite (6004799503160661 / 2 ^ 54)) = Inr (Finite 3)"
    using rd_inv_third by (simp add: days_to_cpd_def)
  have c: "1 / 2 ^ 1021 \<le> (3::real) \<and> (3::real) \<le> 2 ^ 1021"
    by simp
  from inst c have "\<exists>p r. cpd_to_days (Finite 3) = Inr (Finite p)
      \<and> days_to_cpd (Finite p) = Inr (Finite r) \<and> \<bar>r - 3\<bar> \<le> 3 / 2 ^ 51"
    by blast
  with a b have "\<bar>3 - 3\<bar> \<le> (3 / 2 ^ 51 :: real)"
    by auto
  with a b c show ?thesis by blast
qed

text \<open>
  The round trip is not within \<open>1e-12\<close> of \<open>f\<close>. \<^verbatim>\<open>cpd_to_days(11619.0)\<close> is the double
  \<open>6350544478426561 / 2^66\<close>, and \<^verbatim>\<open>days_to_cpd\<close> of it is \<open>11619 - 2^-39\<close>, printed
  \<open>11618.999999999998\<close>, at distance \<open>1.8e-12\<close> from \<open>11619\<close>. For the subnormal
  \<open>f = 2^-1030\<close> the period overflows to \<open>+inf\<close>, and the round trip returns \<open>0.0\<close>.
\<close>

theorem unit_conversion_round_trip_inexact:
  "cpd_to_days (Finite 11619) = Inr (Finite (6350544478426561 / 2 ^ 66))
   \<and> days_to_cpd (Finite (6350544478426561 / 2 ^ 66)) = Inr (Finite (11619 - 1 / 2 ^ 39))
   \<and> \<not> \<bar>(11619 - 1 / 2 ^ 39) - 11619\<bar> < (1 / 10 ^ 12 :: real)
   \<and> cpd_to_days (Finite (1 / 2 ^ 1030)) = Inr PosInf
   \<and> days_to_cpd PosInf = Inr (Finite 0)"
proof -
  have a: "cpd_to_days (Finite 11619) = Inr (Finite (6350544478426561 / 2 ^ 66))"
    using rd_inv_11619 by (simp add: cpd_to_days_def)
  have b: "days_to_cpd (Finite (6350544478426561 / 2 ^ 66)) = Inr (Finite (11619 - 1 / 2 ^ 39))"
    using rd_inv_inv_11619 by (simp add: days_to_cpd_def)
  have c: "\<not> \<bar>(11619 - 1 / 2 ^ 39) - 11619\<bar> < (1 / 10 ^ 12 :: real)"
    by simp
  have "rd (2 ^ 1030) = PosInf" by (rule rd_overflow) simp
  then have d: "cpd_to_days (Finite (1 / 2 ^ 1030)) = Inr PosInf"
    by (simp add: cpd_to_days_def)
  have e: "days_to_cpd PosInf = Inr (Finite 0)"
    by (simp add: days_to_cpd_def)
  show ?thesis
    by (intro conjI) (fact a, fact b, fact c, fact d, fact e)
qed

section \<open>Orbital period\<close>

lemma orbital_period_f64_unfold:
  assumes "T_S \<noteq> 0" "T_E \<noteq> 0" "\<bar>n\<bar> \<le> 2 ^ 53" "\<bar>m\<bar> \<le> 2 ^ 53" "\<not> (n = 0 \<and> m = 0)"
  shows "calculate_orbital_period_f64 n m (Finite T_S) (Finite T_E) =
     (let denominator = f64_add (rd (of_int n / T_E)) (rd (of_int m / T_S))
      in if f64_less (f64_abs denominator) (rd (1 / 10 ^ 10)) then Inr PosInf
         else (case f64_div (Finite 1) denominator of
                 Inl e \<Rightarrow> Inl e
               | Inr p \<Rightarrow> Inr (f64_abs p)))"
proof -
  from assms(5) have nz: "(n = 0 \<and> m = 0) = False" by simp
  show ?thesis
    unfolding calculate_orbital_period_f64_def
    by (simp only: nz if_False) (simp add: assms(1,2) int_to_f64_exact [OF assms(3)]
      int_to_f64_exact [OF assms(4)] del: f64_less.simps f64_abs.simps f64_add.simps)
qed

lemma inv_finite_positive:
  assumes "rd x = Finite d" "\<not> \<bar>d\<bar> < 7737125245533627 / 2 ^ 86"
  shows "\<exists>p. f64_abs (rd (1 / d)) = Finite p \<and> 0 < p \<and> p \<le> 2 ^ 34"
proof -
  have c: "pow2 (- 34) \<le> 7737125245533627 / 2 ^ 86" by (simp add: pow2_def)
  with assms(2) have lo: "pow2 (- 34) \<le> \<bar>d\<bar>" by linarith
  with pow2_pos [of "- 34"] have dpos: "0 < \<bar>d\<bar>" by linarith
  from rd_finite_bound [OF assms(1)] have hi: "\<bar>d\<bar> < pow2 1024" by (simp add: pow2_def)
  have inv34: "1 / pow2 (- 34) = pow2 34" by (simp add: pow2_def)
  have inv1024: "1 / pow2 1024 = pow2 (- 1024)" by (simp add: pow2_def)
  have "\<bar>1 / d\<bar> = 1 / \<bar>d\<bar>" by simp
  also have "\<dots> \<le> 1 / pow2 (- 34)"
    using lo pow2_pos [of "- 34"] by (intro divide_left_mono mult_pos_pos) (simp_all add: dpos)
  finally have up: "\<bar>1 / d\<bar> \<le> pow2 34" by (simp only: inv34)
  from rd_le_pow2 [OF up] obtain y where y: "rd (1 / d) = Finite y" "\<bar>y\<bar> \<le> pow2 34"
    by auto
  have "pow2 (- 1074) \<le> pow2 (- 1024)" by (rule pow2_mono) simp
  also have "\<dots> = 1 / pow2 1024" by (rule inv1024 [symmetric])
  also have "\<dots> \<le> 1 / \<bar>d\<bar>"
    using hi dpos pow2_pos [of 1024] by (intro divide_left_mono mult_pos_pos) simp_all
  also have "\<dots> = \<bar>1 / d\<bar>" by simp
  finally have "rd (1 / d) \<noteq> Finite 0" by (rule rd_nonzero)
  with y(1) have "y \<noteq> 0" by auto
  then have "0 < \<bar>y\<bar>" by simp
  moreover have "\<bar>y\<bar> \<le> 2 ^ 34" using y(2) by (simp add: pow2_def)
  ultimately show ?thesis using y(1) by simp
qed

lemma rd_inv_24: "rd (1 / 24) = Finite (6004799503160661 / 2 ^ 57)"
  by (subst rd_normal [of "- 5"]) (simp_all add: pow2_def py_round_def Let_def)

lemma rd_inv_12: "rd (1 / 12) = Finite (6004799503160661 / 2 ^ 56)"
  by (subst rd_normal [of "- 4"]) (simp_all add: pow2_def py_round_def Let_def)

lemma rd_sum_24_12: "rd (6004799503160661 / 2 ^ 57 + 6004799503160661 / 2 ^ 56) = Finite (1 / 8)"
  by (subst rd_normal [of "- 4"]) (simp_all add: pow2_def py_round_def Let_def)

lemma rd_neg_inv_T:
  "rd (- 1 / (3377699712421393 / 2 ^ 47)) = Finite (- (1501199879393045 / 2 ^ 55))"
  by (subst rd_normal [of "- 5"]) (simp_all add: pow2_def py_round_def Let_def)

lemma rd_den_T:
  "rd (6004799503160661 / 2 ^ 57 + - (1501199879393045 / 2 ^ 55)) = Finite (- (14411519 / 2 ^ 57))"
  by (subst rd_normal [of "- 34"]) (simp_all add: pow2_def py_round_def Let_def)

lemma rd_inv_den_T:
  "rd (1 / - (14411519 / 2 ^ 57)) = Finite (- (5242879930000045 / 2 ^ 19))"
  by (subst rd_normal [of 33]) (simp_all add: pow2_def py_round_def Let_def)

text \<open>
  C1, amended. For integers \<open>n\<close>, \<open>m\<close> of magnitude at most \<open>2^53\<close> and positive periods
  \<open>T_S\<close>, \<open>T_E\<close>, \<open>calculate_orbital_period\<close> on binary64 returns \<open>+inf\<close> when \<open>n = 0\<close> and
  \<open>m = 0\<close>. Otherwise let \<open>d\<close> be the computed denominator, the rounded sum of the rounded
  quotients \<open>n / T_E\<close> and \<open>m / T_S\<close>. When \<open>d\<close> is finite and \<open>|d|\<close> is below the double
  nearest to \<open>1e-10\<close> the result is \<open>+inf\<close>; when \<open>d\<close> is finite and not below it, the result
  is the rounded \<open>|1 / d|\<close>, finite, strictly positive and at most \<open>2^34\<close>. When a quotient
  has overflowed, \<open>d\<close> is an infinity and the result is \<open>0.0\<close>, or \<open>d\<close> is nan and the
  result is nan. For periods of at least \<open>2^-900\<close> the denominator is finite.
\<close>

theorem calculate_orbital_period_f64_contract:
  assumes "0 < T_S" and "0 < T_E" and "\<bar>n\<bar> \<le> 2 ^ 53" and "\<bar>m\<bar> \<le> 2 ^ 53"
  shows "(n = 0 \<and> m = 0 \<longrightarrow>
            calculate_orbital_period_f64 n m (Finite T_S) (Finite T_E) = Inr PosInf)
         \<and> (\<not> (n = 0 \<and> m = 0) \<longrightarrow>
              (case f64_add (rd (of_int n / T_E)) (rd (of_int m / T_S)) of
                 Finite d \<Rightarrow>
                   if f64_less (Finite \<bar>d\<bar>) (rd (1 / 10 ^ 10))
                   then calculate_orbital_period_f64 n m (Finite T_S) (Finite T_E) = Inr PosInf
                   else (\<exists>p. calculate_orbital_period_f64 n m (Finite T_S) (Finite T_E) = Inr (Finite p)
                           \<and> f64_abs (rd (1 / d)) = Finite p \<and> 0 < p \<and> p \<le> 2 ^ 34)
               | NaN \<Rightarrow> calculate_orbital_period_f64 n m (Finite T_S) (Finite T_E) = Inr NaN
               | _ \<Rightarrow> calculate_orbital_period_f64 n m (Finite T_S) (Finite T_E) = Inr (Finite 0)))
         \<and> (1 / 2 ^ 900 \<le> T_S \<and> 1 / 2 ^ 900 \<le> T_E \<longrightarrow>
              (\<exists>d. f64_add (rd (of_int n / T_E)) (rd (of_int m / T_S)) = Finite d))"
proof -
  let ?R = "calculate_orbital_period_f64 n m (Finite T_S) (Finite T_E)"
  let ?den = "f64_add (rd (of_int n / T_E)) (rd (of_int m / T_S))"
  have zero: "n = 0 \<and> m = 0 \<longrightarrow> ?R = Inr PosInf"
    by (simp add: calculate_orbital_period_f64_def)
  have main: "(case ?den of
                 Finite d \<Rightarrow>
                   if f64_less (Finite \<bar>d\<bar>) (rd (1 / 10 ^ 10))
                   then ?R = Inr PosInf
                   else (\<exists>p. ?R = Inr (Finite p)
                           \<and> f64_abs (rd (1 / d)) = Finite p \<and> 0 < p \<and> p \<le> 2 ^ 34)
               | NaN \<Rightarrow> ?R = Inr NaN
               | _ \<Rightarrow> ?R = Inr (Finite 0))"
    if nz: "\<not> (n = 0 \<and> m = 0)"
  proof -
    from assms(1,2) have ne: "T_S \<noteq> 0" "T_E \<noteq> 0" by simp_all
    note unf = orbital_period_f64_unfold [OF ne assms(3,4) nz]
    have thr: "rd (1 / 10000000000) = Finite (7737125245533627 / 2 ^ 86)"
      using rd_threshold by simp
    show ?thesis
    proof (cases ?den)
      case (Finite d)
      show ?thesis
      proof (cases "\<bar>d\<bar> < 7737125245533627 / 2 ^ 86")
        case True
        with Finite unf thr show ?thesis by (simp add: Let_def)
      next
        case False
        from f64_add_finite [OF Finite] obtain x where x: "rd x = Finite d" by blast
        from inv_finite_positive [OF x False] obtain p
          where p: "f64_abs (rd (1 / d)) = Finite p" "0 < p" "p \<le> 2 ^ 34" by blast
        from False have "d \<noteq> 0" by auto
        with Finite False unf p(1) thr have "?R = Inr (Finite p)"
          by (simp add: Let_def)
        with p Finite False thr show ?thesis by simp
      qed
    next
      case PosInf
      with unf thr show ?thesis by (simp add: Let_def)
    next
      case NegInf
      with unf thr show ?thesis by (simp add: Let_def)
    next
      case NaN
      with unf thr show ?thesis by (simp add: Let_def)
    qed
  qed
  have fin: "\<exists>d. ?den = Finite d" if lo: "1 / 2 ^ 900 \<le> T_S" "1 / 2 ^ 900 \<le> T_E"
  proof -
    have q: "\<bar>of_int k / T\<bar> \<le> pow2 953" if k: "\<bar>k\<bar> \<le> 2 ^ 53" and T: "1 / 2 ^ 900 \<le> T"
      for k :: int and T :: real
    proof -
      have T': "pow2 (- 900) \<le> T" using T by (simp add: pow2_def)
      with pow2_pos [of "- 900"] have Tpos: "0 < T" by linarith
      have kk: "\<bar>of_int k :: real\<bar> \<le> pow2 53"
      proof -
        from k have "(of_int \<bar>k\<bar> :: real) \<le> of_int (2 ^ 53)" by (simp only: of_int_le_iff)
        then show ?thesis by (simp add: pow2_def)
      qed
      have "\<bar>of_int k / T\<bar> = \<bar>of_int k\<bar> / T" using Tpos by simp
      also have "\<dots> \<le> pow2 53 / T"
        using kk Tpos by (intro divide_right_mono) simp_all
      also have "\<dots> \<le> pow2 53 / pow2 (- 900)"
        using T' pow2_pos [of "- 900"] pow2_pos [of 53]
        by (intro divide_left_mono mult_pos_pos) (simp_all add: Tpos less_imp_le)
      also have "\<dots> = pow2 953" by (simp add: pow2_def)
      finally show ?thesis .
    qed
    from rd_le_pow2 [OF q [OF assms(3) lo(2)]] obtain a
      where a: "rd (of_int n / T_E) = Finite a" "\<bar>a\<bar> \<le> pow2 953" by auto
    from rd_le_pow2 [OF q [OF assms(4) lo(1)]] obtain b
      where b: "rd (of_int m / T_S) = Finite b" "\<bar>b\<bar> \<le> pow2 953" by auto
    have "pow2 954 = 2 * pow2 953" by (simp add: pow2_def)
    with a(2) b(2) have "\<bar>a + b\<bar> \<le> pow2 954" by linarith
    from rd_le_pow2 [OF this] obtain d where "rd (a + b) = Finite d" by auto
    with a(1) b(1) show ?thesis by simp
  qed
  from zero main fin show ?thesis by blast
qed

theorem calculate_orbital_period_f64_contract_witness:
  "(0::real) < 12 \<and> (0::real) < 24 \<and> \<bar>1::int\<bar> \<le> 2 ^ 53
   \<and> f64_add (rd (of_int 1 / 24)) (rd (of_int 1 / 12)) = Finite (1 / 8)
   \<and> \<not> f64_less (Finite \<bar>1 / 8\<bar>) (rd (1 / 10 ^ 10))
   \<and> calculate_orbital_period_f64 1 1 (Finite 12) (Finite 24) = Inr (Finite 8)
   \<and> calculate_orbital_period_f64 0 0 (Finite 12) (Finite 24) = Inr PosInf"
proof -
  have h: "(0::real) < 12" "(0::real) < 24" "\<bar>1::int\<bar> \<le> 2 ^ 53"
    by simp_all
  note inst = calculate_orbital_period_f64_contract [OF h(1) h(2) h(3) h(3)]
  have den: "f64_add (rd (of_int 1 / 24)) (rd (of_int 1 / 12)) = Finite (1 / 8)"
    using rd_inv_24 rd_inv_12 rd_sum_24_12 by simp
  have thr: "\<not> f64_less (Finite \<bar>1 / 8\<bar>) (rd (1 / 10 ^ 10))"
    using rd_threshold by simp
  from inst have "\<not> ((1::int) = 0 \<and> (1::int) = 0) \<longrightarrow>
      (case f64_add (rd (of_int 1 / 24)) (rd (of_int 1 / 12)) of
         Finite d \<Rightarrow>
           if f64_less (Finite \<bar>d\<bar>) (rd (1 / 10 ^ 10))
           then calculate_orbital_period_f64 1 1 (Finite 12) (Finite 24) = Inr PosInf
           else (\<exists>p. calculate_orbital_period_f64 1 1 (Finite 12) (Finite 24) = Inr (Finite p)
                   \<and> f64_abs (rd (1 / d)) = Finite p \<and> 0 < p \<and> p \<le> 2 ^ 34)
       | NaN \<Rightarrow> calculate_orbital_period_f64 1 1 (Finite 12) (Finite 24) = Inr NaN
       | _ \<Rightarrow> calculate_orbital_period_f64 1 1 (Finite 12) (Finite 24) = Inr (Finite 0))"
    by (elim conjE)
  then have "\<exists>p. calculate_orbital_period_f64 1 1 (Finite 12) (Finite 24) = Inr (Finite p)
       \<and> f64_abs (rd (1 / (1 / 8))) = Finite p \<and> 0 < p \<and> p \<le> 2 ^ 34"
    unfolding den using thr by simp
  then have one: "calculate_orbital_period_f64 1 1 (Finite 12) (Finite 24) = Inr (Finite 8)"
    using rd_eight by auto
  have zero: "calculate_orbital_period_f64 0 0 (Finite 12) (Finite 24) = Inr PosInf"
    using calculate_orbital_period_f64_contract [OF h(1) h(2), of 0 0] by simp
  show ?thesis
    by (intro conjI) (fact h(1), fact h(2), fact h(3), fact den, fact thr, fact one, fact zero)
qed

text \<open>
  The result is not always \<open>+inf\<close> or strictly positive, and the threshold is applied to
  the computed denominator, not to the exact one. With \<open>n = 0\<close>, \<open>m = 1\<close>,
  \<open>T_S = 2^-1030\<close> and \<open>T_E = 24\<close> the quotient \<open>m / T_S\<close> overflows, and the result is
  \<open>0.0\<close>. With \<open>n = 1\<close>, \<open>m = -1\<close>, \<open>T_E = 24\<close> and
  \<open>T_S = 3377699712421393 / 2^47\<close>, printed \<open>23.999999942400002\<close>, the exact value of
  \<open>|n / T_E + m / T_S|\<close> is below \<open>1e-10\<close>, but the computed denominator is
  \<open>-14411519 / 2^57\<close>, which is not, and the result is \<open>5242879930000045 / 2^19\<close>, printed
  \<open>9999999866.485682\<close>.
\<close>

theorem calculate_orbital_period_f64_zero_result:
  "calculate_orbital_period_f64 0 1 (Finite (1 / 2 ^ 1030)) (Finite 24) = Inr (Finite 0)
   \<and> \<not> \<bar>of_int 0 / 24 + of_int 1 / (1 / 2 ^ 1030)\<bar> < (1 / 10 ^ 10 :: real)
   \<and> calculate_orbital_period_f64 1 (- 1) (Finite (3377699712421393 / 2 ^ 47)) (Finite 24)
       = Inr (Finite (5242879930000045 / 2 ^ 19))
   \<and> \<bar>of_int 1 / 24 + of_int (- 1) / (3377699712421393 / 2 ^ 47)\<bar> < (1 / 10 ^ 10 :: real)"
proof -
  have big: "rd (2 ^ 1030) = PosInf" by (rule rd_overflow) simp
  have a: "calculate_orbital_period_f64 0 1 (Finite (1 / 2 ^ 1030)) (Finite 24) = Inr (Finite 0)"
    using big rd_zero rd_one rd_threshold
    by (simp add: calculate_orbital_period_f64_def int_to_f64_def)
  have b: "\<not> \<bar>of_int 0 / 24 + of_int 1 / (1 / 2 ^ 1030)\<bar> < (1 / 10 ^ 10 :: real)"
    by simp
  have c: "calculate_orbital_period_f64 1 (- 1) (Finite (3377699712421393 / 2 ^ 47)) (Finite 24)
       = Inr (Finite (5242879930000045 / 2 ^ 19))"
    using rd_one rd_minus_one rd_inv_24 rd_neg_inv_T rd_den_T rd_inv_den_T rd_threshold
    by (simp add: calculate_orbital_period_f64_def int_to_f64_def)
  have d: "\<bar>of_int 1 / 24 + of_int (- 1) / (3377699712421393 / 2 ^ 47)\<bar> < (1 / 10 ^ 10 :: real)"
    by simp
  show ?thesis
    by (intro conjI) (fact a, fact b, fact c, fact d)
qed

section \<open>Alias arithmetic\<close>





lemma rd_five_halves: "rd (5 / 2) = Finite (5 / 2)"
  by (subst rd_normal [of 1]) (simp_all add: pow2_def py_round_def Let_def)

lemma rd_f0: "rd (1 / 2 - 1 / 2 ^ 54) = Finite (1 / 2 - 1 / 2 ^ 54)"
  by (subst rd_normal [of "- 2"]) (simp_all add: pow2_def py_round_def Let_def)

lemma rd_f0_plus_half: "rd (1 / 2 - 1 / 2 ^ 54 + 1 / 2) = Finite 1"
  by (subst rd_normal [of "- 1"]) (simp_all add: pow2_def py_round_def Let_def)

lemma rd_f0_minus_one: "rd (1 / 2 - 1 / 2 ^ 54 - 1) = Finite (- (1 / 2))"
  by (subst rd_normal [of "- 1"]) (simp_all add: pow2_def py_round_def Let_def)

lemma py_round_f0: "py_round (1 / 2 - 1 / 2 ^ 54) = 0"
  by (simp add: py_round_def Let_def)

lemma rd_f1: "rd (2 ^ 52 + 1) = Finite (2 ^ 52 + 1)"
  using rd_int [of "2 ^ 52 + 1"] by simp

lemma rd_f1_plus_half: "rd (2 ^ 52 + 1 + 1 / 2) = Finite (2 ^ 52 + 2)"
  by (subst rd_normal [of 52]) (simp_all add: pow2_def py_round_def Let_def)

lemma rd_f1_2: "rd (2 ^ 52 + 2) = Finite (2 ^ 52 + 2)"
  using rd_int [of "2 ^ 52 + 2"] by simp

text \<open>
  C10, amended. On binary64, \<open>calculate_alias_frequency(f, 1.0)\<close> and
  \<open>calculate_subdaily_aliasing(f, 24)\<close> return the same value for every double \<open>f\<close> for
  which the rounding of the sum \<open>f + 0.5\<close> does not change its floor; both return
  \<open>|f - round(f)|\<close>, rounded. The two roundings of \<open>f\<close> differ at a half-integer, where
  the distance is one half either way (lemma \<open>alias_one_eq_floor\<close>).
\<close>

theorem alias_f64_eq_subdaily_f64:
  assumes "rd f = Finite f" and "rd (f + 1 / 2) = Finite y" and "\<lfloor>y\<rfloor> = \<lfloor>f + 1 / 2\<rfloor>"
  shows "calculate_alias_frequency_f64 (Finite f) (Finite 1)
           = calculate_subdaily_aliasing_f64 (Finite f) (Finite 24)
         \<and> calculate_alias_frequency_f64 (Finite f) (Finite 1)
           = Inr (f64_abs (rd (f - of_int (py_round f))))"
proof -
  let ?n = "of_int (py_round f) :: real"
  let ?k = "of_int \<lfloor>f + 1 / 2\<rfloor> :: real"
  have a: "calculate_alias_frequency_f64 (Finite f) (Finite 1) = Inr (f64_abs (rd (f - ?n)))"
    using assms(1) rd_py_round_double [OF assms(1)]
    by (simp add: calculate_alias_frequency_f64_def int_to_f64_def f64_sub_def)
  have b: "calculate_subdaily_aliasing_f64 (Finite f) (Finite 24) = Inr (f64_abs (rd (f - ?k)))"
    using assms rd_floor_half_double [OF assms(1)] rd_one
    by (simp add: calculate_subdaily_aliasing_f64_def int_to_f64_def f64_sub_def)
  have "f64_abs (rd (f - ?n)) = f64_abs (rd (f - ?k))"
    by (rule f64_abs_rd_cong) (rule alias_one_eq_floor)
  with a b show ?thesis by simp
qed

theorem alias_f64_eq_subdaily_f64_witness:
  "rd (5 / 2) = Finite (5 / 2) \<and> rd (5 / 2 + 1 / 2) = Finite 3
   \<and> \<lfloor>3 :: real\<rfloor> = \<lfloor>5 / 2 + 1 / 2 :: real\<rfloor>
   \<and> py_round (5 / 2) = 2 \<and> \<lfloor>5 / 2 + 1 / 2 :: real\<rfloor> = 3
   \<and> calculate_alias_frequency_f64 (Finite (5 / 2)) (Finite 1)
       = calculate_subdaily_aliasing_f64 (Finite (5 / 2)) (Finite 24)
   \<and> calculate_alias_frequency_f64 (Finite (5 / 2)) (Finite 1) = Inr (Finite (1 / 2))"
proof -
  have h2: "rd (5 / 2 + 1 / 2) = Finite 3" using rd_three by simp
  have h3: "\<lfloor>3 :: real\<rfloor> = \<lfloor>5 / 2 + 1 / 2 :: real\<rfloor>" by simp
  have r: "py_round (5 / 2) = 2" by (simp add: py_round_def Let_def)
  have fl: "\<lfloor>5 / 2 + 1 / 2 :: real\<rfloor> = 3" by simp
  note inst = alias_f64_eq_subdaily_f64 [OF rd_five_halves h2 h3]
  from inst [THEN conjunct2] r rd_half
  have v: "calculate_alias_frequency_f64 (Finite (5 / 2)) (Finite 1) = Inr (Finite (1 / 2))"
    by simp
  from inst have e: "calculate_alias_frequency_f64 (Finite (5 / 2)) (Finite 1)
       = calculate_subdaily_aliasing_f64 (Finite (5 / 2)) (Finite 24)"
    by (rule conjunct1)
  show ?thesis
    by (intro conjI) (fact rd_five_halves, fact h2, fact h3, fact r, fact fl, fact e, fact v)
qed

text \<open>
  The two functions differ where the sum \<open>f + 0.5\<close> is rounded across an integer. At the
  double \<open>f = 1/2 - 2^-54\<close>, printed \<open>0.49999999999999994\<close>, the sum is rounded to \<open>1.0\<close>:
  \<open>calculate_alias_frequency\<close> returns \<open>f\<close> and \<open>calculate_subdaily_aliasing\<close> returns
  \<open>0.5\<close>. At \<open>f = 2^52 + 1\<close> the sum is rounded to \<open>2^52 + 2\<close>: the first returns \<open>0.0\<close>
  and the second \<open>1.0\<close>.
\<close>

theorem alias_f64_differs_from_subdaily_f64:
  "rd (1 / 2 - 1 / 2 ^ 54) = Finite (1 / 2 - 1 / 2 ^ 54)
   \<and> calculate_alias_frequency_f64 (Finite (1 / 2 - 1 / 2 ^ 54)) (Finite 1)
       = Inr (Finite (1 / 2 - 1 / 2 ^ 54))
   \<and> calculate_subdaily_aliasing_f64 (Finite (1 / 2 - 1 / 2 ^ 54)) (Finite 24)
       = Inr (Finite (1 / 2))
   \<and> rd (2 ^ 52 + 1) = Finite (2 ^ 52 + 1)
   \<and> calculate_alias_frequency_f64 (Finite (2 ^ 52 + 1)) (Finite 1) = Inr (Finite 0)
   \<and> calculate_subdaily_aliasing_f64 (Finite (2 ^ 52 + 1)) (Finite 24) = Inr (Finite 1)"
proof -
  have a: "calculate_alias_frequency_f64 (Finite (1 / 2 - 1 / 2 ^ 54)) (Finite 1)
       = Inr (Finite (1 / 2 - 1 / 2 ^ 54))"
    using rd_f0 py_round_f0 rd_zero
    by (simp add: calculate_alias_frequency_f64_def int_to_f64_def f64_sub_def)
  have b: "calculate_subdaily_aliasing_f64 (Finite (1 / 2 - 1 / 2 ^ 54)) (Finite 24)
       = Inr (Finite (1 / 2))"
    using rd_f0 rd_f0_plus_half rd_f0_minus_one rd_one
    by (simp add: calculate_subdaily_aliasing_f64_def int_to_f64_def f64_sub_def)
  have c: "calculate_alias_frequency_f64 (Finite (2 ^ 52 + 1)) (Finite 1) = Inr (Finite 0)"
    using rd_f1 rd_zero py_round_of_int [of "2 ^ 52 + 1"]
    by (simp add: calculate_alias_frequency_f64_def int_to_f64_def f64_sub_def)
  have d: "calculate_subdaily_aliasing_f64 (Finite (2 ^ 52 + 1)) (Finite 24) = Inr (Finite 1)"
    using rd_f1 rd_f1_plus_half rd_f1_2 rd_minus_one rd_one
    by (simp add: calculate_subdaily_aliasing_f64_def int_to_f64_def f64_sub_def)
  show ?thesis
    by (intro conjI) (fact rd_f0, fact a, fact b, fact rd_f1, fact c, fact d)
qed

section \<open>Orbital peaks: the loops and the pruning\<close>

lemma map_entry_keys: "map fst (AList.map_entry k f xs) = map fst xs"
  by (induction xs) auto

lemma store_peak_keys: "map fst (store_peak c l a peaks) = map fst peaks"
  by (simp add: store_peak_def map_entry_keys)

lemma peak_lookup_store:
  "peak_lookup (store_peak c lab a peaks) b l =
     (if b = c \<and> l = lab \<and> c \<in> set (map fst peaks) then Some a else peak_lookup peaks b l)"
proof (cases "map_of peaks c")
  case None
  then have "c \<notin> set (map fst peaks)"
    by (simp add: map_of_eq_None_iff)
  with None show ?thesis
    by (auto simp: peak_lookup_def store_peak_def AList.map_of_map_entry)
next
  case (Some d)
  then have "c \<in> set (map fst peaks)"
    by (metis map_of_eq_None_iff option.distinct(1) set_map)
  with Some show ?thesis
    by (auto simp: peak_lookup_def store_peak_def AList.map_of_map_entry AList.update_conv')
qed

lemma spec_alias_nonneg: "0 \<le> spec_alias f_u f_d mult k"
  by (simp add: spec_alias_def)


lemma classify_peak_spec:
  "classify_peak f_u f_d mult k peaks =
     (case spec_band (spec_period f_u f_d mult k) of
        None \<Rightarrow> peaks
      | Some b \<Rightarrow> store_peak b (peak_label mult k) (spec_alias f_u f_d mult k) peaks)"
proof (cases "spec_alias f_u f_d mult k = 0")
  case True
  then show ?thesis
    by (simp add: classify_peak_def spec_period_def spec_alias_def spec_combined_def Let_def)
next
  case False
  with spec_alias_nonneg [of f_u f_d mult k] have pos: "0 < spec_alias f_u f_d mult k"
    by linarith
  then show ?thesis
    unfolding classify_peak_def spec_period_def Let_def
    unfolding spec_alias_def [symmetric] spec_combined_def [symmetric]
    by (simp add: spec_alias_def [symmetric] spec_combined_def [symmetric])
qed

lemma fold_fold_product:
  "fold (\<lambda>m. fold (\<lambda>k. g m k) ks) ms s = fold (\<lambda>p. g (fst p) (snd p)) (List.product ms ks) s"
proof (induction ms arbitrary: s)
  case Nil
  then show ?case by simp
next
  case (Cons m ms)
  have "fold (\<lambda>p. g (fst p) (snd p)) (map (Pair m) ks) s = fold (\<lambda>k. g m k) ks s"
    by (simp add: fold_map comp_def)
  with Cons show ?case by simp
qed

lemma collect_peaks_product:
  "collect_peaks f_u f_d (lo, hi) =
     fold (peak_step f_u f_d) (List.product [1..4] [lo..hi - 1]) empty_peaks"
  unfolding collect_peaks_def peak_step_def
  by (simp add: fold_fold_product [where g = "classify_peak f_u f_d"])

lemma peak_step_keys: "map fst (peak_step f_u f_d p s) = map fst s"
  by (simp add: peak_step_def classify_peak_spec store_peak_keys split: option.split)

lemma fold_peak_step_keys: "map fst (fold (peak_step f_u f_d) ps s) = map fst s"
  by (induction ps arbitrary: s) (simp_all add: peak_step_keys)

lemma peak_step_lookup:
  "peak_lookup (peak_step f_u f_d p s) b l =
     (if spec_band (spec_period f_u f_d (fst p) (snd p)) = Some b
         \<and> l = peak_label (fst p) (snd p) \<and> b \<in> set (map fst s)
      then Some (spec_alias f_u f_d (fst p) (snd p))
      else peak_lookup s b l)"
  by (auto simp: peak_step_def classify_peak_spec peak_lookup_store split: option.split)

lemma fold_peak_step_sound:
  "peak_lookup (fold (peak_step f_u f_d) ps s) b l = Some v \<Longrightarrow>
     peak_lookup s b l = Some v
     \<or> (\<exists>p \<in> set ps. l = peak_label (fst p) (snd p) \<and> v = spec_alias f_u f_d (fst p) (snd p)
           \<and> spec_band (spec_period f_u f_d (fst p) (snd p)) = Some b)"
proof (induction ps arbitrary: s)
  case Nil
  then show ?case by simp
next
  case (Cons p ps)
  from Cons.prems have "peak_lookup (fold (peak_step f_u f_d) ps (peak_step f_u f_d p s)) b l = Some v"
    by simp
  from Cons.IH [OF this] show ?case
    by (auto simp: peak_step_lookup split: if_splits)
qed





lemma fold_update_subset:
  "set (fold (\<lambda>kv. AList.update (fst kv) (snd kv)) items acc) \<subseteq> set items \<union> set acc"
proof (induction items arbitrary: acc)
  case Nil
  then show ?case by simp
next
  case (Cons x xs)
  have upd: "set (AList.update k v al) \<subseteq> insert (k, v) (set al)" for k v and al :: "('a \<times> 'b) list"
    by (induction al) auto
  from Cons [of "AList.update (fst x) (snd x) acc"] upd [of "fst x" "snd x" acc]
  show ?case by auto
qed




lemma top_peaks_subset: "set (top_peaks d) \<subseteq> set d"
proof -
  have "set (top_peaks d) \<subseteq> set (take 10 (sort_key (\<lambda>x. - snd x) d))"
    using fold_update_subset [of "take 10 (sort_key (\<lambda>x. - snd x) d)" "[]"]
    by (simp add: top_peaks_def dict_of_items_def)
  also have "\<dots> \<subseteq> set (sort_key (\<lambda>x. - snd x) d)"
    by (rule set_take_subset)
  finally show ?thesis by simp
qed

lemma prune_category_lookup:
  "map_of (prune_category c s) b =
     (if b = c then (case map_of s c of None \<Rightarrow> None
                     | Some d \<Rightarrow> if d = [] then None else Some (top_peaks d))
      else map_of s b)"
  by (auto simp: prune_category_def AList.delete_conv' AList.update_conv' split: option.split)

lemma prune_category_distinct:
  "distinct (map fst s) \<Longrightarrow> distinct (map fst (prune_category c s))"
  by (auto simp: prune_category_def AList.distinct_delete AList.distinct_update split: option.split)

lemma fold_prune_distinct:
  "distinct (map fst s) \<Longrightarrow> distinct (map fst (fold prune_category cs s))"
  by (induction cs arbitrary: s) (simp_all add: prune_category_distinct)

lemma fold_prune_lookup:
  "distinct cs \<Longrightarrow>
   map_of (fold prune_category cs s) b =
     (if b \<in> set cs then (case map_of s b of None \<Rightarrow> None
                          | Some d \<Rightarrow> if d = [] then None else Some (top_peaks d))
      else map_of s b)"
proof (induction cs arbitrary: s)
  case Nil
  then show ?case by simp
next
  case (Cons c cs)
  then show ?case
    by (auto simp: prune_category_lookup)
qed

lemma collect_peaks_keys:
  "map fst (collect_peaks f_u f_d r) =
     [''8d_peaks'', ''4d_peaks'', ''2-7d_peaks'', ''2d_peaks'', ''1d_peaks'']"
  by (cases r) (simp add: collect_peaks_product fold_peak_step_keys, simp add: empty_peaks_def)

lemma orbital_peaks_lookup:
  "map_of (calculate_orbital_peaks f_u f_d r) b =
     (case map_of (collect_peaks f_u f_d r) b of
        None \<Rightarrow> None
      | Some d \<Rightarrow> if d = [] then None else Some (top_peaks d))"
proof -
  have dist: "distinct (map fst (collect_peaks f_u f_d r))"
    by (simp add: collect_peaks_keys)
  show ?thesis
  proof (cases "map_of (collect_peaks f_u f_d r) b")
    case None
    then show ?thesis
      unfolding calculate_orbital_peaks_def Let_def fold_prune_lookup [OF dist]
      by simp
  next
    case (Some d)
    then have "b \<in> set (map fst (collect_peaks f_u f_d r))"
      by (metis map_of_eq_None_iff option.distinct(1) set_map)
    with Some show ?thesis
      unfolding calculate_orbital_peaks_def Let_def fold_prune_lookup [OF dist]
      by simp
  qed
qed

lemma orbital_peaks_distinct: "distinct (map fst (calculate_orbital_peaks f_u f_d r))"
  unfolding calculate_orbital_peaks_def Let_def
  by (rule fold_prune_distinct) (simp add: collect_peaks_keys)

lemma map_entry_set:
  "(b, d) \<in> set (AList.map_entry k f s) \<Longrightarrow> (b, d) \<in> set s \<or> (\<exists>d0. (b, d0) \<in> set s \<and> d = f d0)"
  by (induction s) (auto split: if_splits)

lemma store_peak_bands_distinct:
  assumes "\<forall>(b, d) \<in> set s. distinct (map fst d)"
  shows "\<forall>(b, d) \<in> set (store_peak c l a s). distinct (map fst d)"
proof -
  have "distinct (map fst d)" if "(b, d) \<in> set (store_peak c l a s)" for b d
  proof -
    from that map_entry_set [of b d c "AList.update l a" s]
    consider "(b, d) \<in> set s" | d0 where "(b, d0) \<in> set s" "d = AList.update l a d0"
      unfolding store_peak_def by blast
    then show ?thesis
    proof cases
      case 1
      with assms show ?thesis by blast
    next
      case 2
      with assms have "distinct (map fst d0)" by blast
      with 2 show ?thesis by (simp add: AList.distinct_update)
    qed
  qed
  then show ?thesis by blast
qed

lemma peak_step_bands_distinct:
  "\<forall>(b, d) \<in> set s. distinct (map fst d) \<Longrightarrow>
   \<forall>(b, d) \<in> set (peak_step f_u f_d p s). distinct (map fst d)"
  unfolding peak_step_def classify_peak_spec
  by (cases "spec_band (spec_period f_u f_d (fst p) (snd p))")
     (simp_all add: store_peak_bands_distinct)

lemma fold_peak_step_bands_distinct:
  "\<forall>(b, d) \<in> set s. distinct (map fst d) \<Longrightarrow>
   \<forall>(b, d) \<in> set (fold (peak_step f_u f_d) ps s). distinct (map fst d)"
proof (induction ps arbitrary: s)
  case Nil
  then show ?case by simp
next
  case (Cons p ps)
  from Cons.IH [OF peak_step_bands_distinct [OF Cons.prems]] show ?case by simp
qed

lemma collect_peaks_bands_distinct:
  assumes "map_of (collect_peaks f_u f_d r) b = Some d"
  shows "distinct (map fst d)"
proof -
  obtain lo hi where r: "r = (lo, hi)" by (cases r)
  have "\<forall>(b, d) \<in> set empty_peaks. distinct (map fst d)"
    by (simp add: empty_peaks_def)
  then have "\<forall>(b, d) \<in> set (collect_peaks f_u f_d r). distinct (map fst d)"
    unfolding r collect_peaks_product by (rule fold_peak_step_bands_distinct)
  moreover from assms have "(b, d) \<in> set (collect_peaks f_u f_d r)"
    by (rule map_of_SomeD)
  ultimately show ?thesis by blast
qed

lemma empty_peaks_lookup: "peak_lookup empty_peaks b l = None"
  by (simp add: peak_lookup_def empty_peaks_def)

lemma product_upto_mem:
  "p \<in> set (List.product [a..b] [lo..hi]) \<longleftrightarrow> fst p \<in> {a..b} \<and> snd p \<in> {lo..hi}"
  by (cases p) (simp only: set_product set_upto mem_Sigma_iff fst_conv snd_conv)

lemma collect_peaks_sound:
  assumes "peak_lookup (collect_peaks f_u f_d (lo, hi)) b l = Some v"
  shows "\<exists>mult \<in> {1..4}. \<exists>k \<in> {lo..hi - 1}. l = peak_label mult k \<and> v = spec_alias f_u f_d mult k
           \<and> spec_band (spec_period f_u f_d mult k) = Some b"
proof -
  from fold_peak_step_sound [OF assms [unfolded collect_peaks_product]]
  obtain p where "p \<in> set (List.product [1..4] [lo..hi - 1])"
    and "l = peak_label (fst p) (snd p)" and "v = spec_alias f_u f_d (fst p) (snd p)"
    and "spec_band (spec_period f_u f_d (fst p) (snd p)) = Some b"
    unfolding empty_peaks_lookup by blast
  then show ?thesis
    unfolding product_upto_mem by blast
qed

lemma default_labels_inj:
  "inj_on (\<lambda>p. peak_label (fst p) (snd p)) (set (List.product [1..4] [- 6..6]))"
proof -
  have "distinct (map (\<lambda>p. peak_label (fst p) (snd p)) (List.product [1..4] [- 6..6]))"
    by code_simp
  then show ?thesis
    by (simp only: distinct_map)
qed

section \<open>Orbital peaks: the bands of the result\<close>













section \<open>Orbital peaks: the classification\<close>

lemma efold_cong:
  "(\<And>x s. x \<in> set xs \<Longrightarrow> f x s = g x s) \<Longrightarrow> efold f xs s = efold g xs s"
  by (induction xs arbitrary: s) (simp_all split: sum.split)

lemma efold_append:
  "efold f (xs @ ys) s = (case efold f xs s of Inl e \<Rightarrow> Inl e | Inr s' \<Rightarrow> efold f ys s')"
  by (induction xs arbitrary: s) (simp_all split: sum.split)

lemma efold_map: "efold f (map h xs) s = efold (\<lambda>x. f (h x)) xs s"
  by (induction xs arbitrary: s) (simp_all split: sum.split)

lemma efold_efold_product:
  "efold (\<lambda>m. efold (\<lambda>k. g m k) ks) ms s = efold (\<lambda>p. g (fst p) (snd p)) (List.product ms ks) s"
proof (induction ms arbitrary: s)
  case Nil
  then show ?case by simp
next
  case (Cons m ms)
  have "efold (\<lambda>p. g (fst p) (snd p)) (map (Pair m) ks) s = efold (\<lambda>k. g m k) ks s"
    by (simp add: efold_map)
  with Cons show ?case by (simp add: efold_append split: sum.split)
qed

lemma efold_returned:
  "efold (\<lambda>p s. case A p of Inl e \<Rightarrow> Inl e | Inr x \<Rightarrow> Inr (g p s)) ps s = Inr t \<Longrightarrow>
     t = fold g ps s"
  by (induction ps arbitrary: s) (auto split: sum.splits)

lemma efold_returns:
  "\<forall>p \<in> set ps. \<exists>x. A p = Inr x \<Longrightarrow>
     efold (\<lambda>p s. case A p of Inl e \<Rightarrow> Inl e | Inr x \<Rightarrow> Inr (g p s)) ps s = Inr (fold g ps s)"
  by (induction ps arbitrary: s) auto

lemma band_chain:
  "(if f64_less (Finite 6) q \<and> f64_le q (Finite 12) then store_peak ''8d_peaks'' l a s
    else if f64_less (Finite 3) q \<and> f64_le q (Finite 6) then store_peak ''4d_peaks'' l a s
    else if f64_less (Finite 2) q \<and> f64_le q (Finite 3.5) then store_peak ''2-7d_peaks'' l a s
    else if f64_less (Finite 1.5) q \<and> f64_le q (Finite 2.5) then store_peak ''2d_peaks'' l a s
    else if f64_less (Finite 0.5) q \<and> f64_le q (Finite 1.5) then store_peak ''1d_peaks'' l a s
    else s)
   = (case spec_band_f64 q of None \<Rightarrow> s | Some b \<Rightarrow> store_peak b l a s)"
  by (cases q) simp_all

lemma period_of_alias:
  assumes "0 \<le> a"
  shows "(if f64_less (Finite 0) (Finite a) then f64_div (Finite 1) (Finite a) else Inr PosInf)
           = Inr (spec_period_f64 a)"
  using assms by (auto simp: spec_period_f64_def)

lemma classify_peak_f64_step:
  assumes "int_to_f64 mult = Inr mf"
  shows "classify_peak_f64 (f64_mul mf f_u) f_d mult k peaks =
     (case spec_alias_f64 f_u f_d mult k of
        Inl e \<Rightarrow> Inl e
      | Inr x \<Rightarrow> Inr (peak_step_f64 f_u f_d (mult, k) peaks))"
proof (cases "int_to_f64 k")
  case (Inl e)
  with assms show ?thesis
    by (simp add: classify_peak_f64_def spec_alias_f64_def spec_combined_f64_def)
next
  case (Inr kf)
  let ?c = "f64_add (f64_mul mf f_u) (f64_mul kf f_d)"
  from assms Inr have comb: "spec_combined_f64 f_u f_d mult k = Inr ?c"
    by (simp add: spec_combined_f64_def)
  show ?thesis
  proof (cases "f64_round ?c")
    case (Inl e)
    with assms Inr comb show ?thesis
      by (simp add: classify_peak_f64_def spec_alias_f64_def)
  next
    case rn: (Inr n)
    show ?thesis
    proof (cases "int_to_f64 n")
      case (Inl e)
      with assms Inr comb rn show ?thesis
        by (simp add: classify_peak_f64_def spec_alias_f64_def)
    next
      case nf: (Inr nf)
      let ?al = "f64_abs (f64_sub ?c nf)"
      from comb rn nf have al: "spec_alias_f64 f_u f_d mult k = Inr ?al"
        by (simp add: spec_alias_f64_def)
      have cl: "classify_peak_f64 (f64_mul mf f_u) f_d mult k peaks =
          (case (if f64_less (Finite 0) ?al then f64_div (Finite 1) ?al else Inr PosInf) of
             Inl e \<Rightarrow> Inl e
           | Inr period_days \<Rightarrow>
               (case ?al of
                  Finite a \<Rightarrow>
                    Inr (case spec_band_f64 period_days of
                           None \<Rightarrow> peaks
                         | Some b \<Rightarrow> store_peak b (peak_label mult k) a peaks)
                | _ \<Rightarrow> Inr peaks))"
        by (simp only: classify_peak_f64_def Inr sum.case Let_def rn nf band_chain)
      show ?thesis
      proof (cases ?al)
        case (Finite a)
        from f64_abs_nonneg [OF Finite] have a: "0 \<le> a" .
        have "classify_peak_f64 (f64_mul mf f_u) f_d mult k peaks =
            Inr (case spec_band_f64 (spec_period_f64 a) of
                   None \<Rightarrow> peaks
                 | Some b \<Rightarrow> store_peak b (peak_label mult k) a peaks)"
          unfolding cl Finite period_of_alias [OF a] by simp
        moreover have "peak_step_f64 f_u f_d (mult, k) peaks =
            (case spec_band_f64 (spec_period_f64 a) of
                   None \<Rightarrow> peaks
                 | Some b \<Rightarrow> store_peak b (peak_label mult k) a peaks)"
          by (simp add: peak_step_f64_def spec_entry_f64_def al Finite split: option.split)
        ultimately show ?thesis by (simp add: al)
      next
        case PosInf
        have "peak_step_f64 f_u f_d (mult, k) peaks = peaks"
          by (simp add: peak_step_f64_def spec_entry_f64_def al PosInf)
        then show ?thesis unfolding cl al PosInf by simp
      next
        case NegInf
        have "peak_step_f64 f_u f_d (mult, k) peaks = peaks"
          by (simp add: peak_step_f64_def spec_entry_f64_def al NegInf)
        then show ?thesis unfolding cl al NegInf by simp
      next
        case NaN
        have "peak_step_f64 f_u f_d (mult, k) peaks = peaks"
          by (simp add: peak_step_f64_def spec_entry_f64_def al NaN)
        then show ?thesis unfolding cl al NaN by simp
      qed
    qed
  qed
qed

lemma collect_peaks_f64_product:
  "collect_peaks_f64 f_u f_d (lo, hi) =
     efold (\<lambda>p s. case spec_alias_f64 f_u f_d (fst p) (snd p) of
                     Inl e \<Rightarrow> Inl e
                   | Inr x \<Rightarrow> Inr (peak_step_f64 f_u f_d p s))
       (List.product [1..4] [lo..hi - 1]) empty_peaks"
proof -
  let ?g = "\<lambda>m k s. case spec_alias_f64 f_u f_d m k of
                     Inl e \<Rightarrow> Inl e
                   | Inr x \<Rightarrow> Inr (peak_step_f64 f_u f_d (m, k) s)"
  have body: "(case int_to_f64 m of
                   Inl e \<Rightarrow> Inl e
                 | Inr mf \<Rightarrow>
                     (let base_freq = f64_mul mf f_u
                      in efold (\<lambda>k. classify_peak_f64 base_freq f_d m k) [lo..hi - 1] s))
              = efold (\<lambda>k. ?g m k) [lo..hi - 1] s"
    if "m \<in> set [1..4]" for m s
  proof -
    from that have "\<bar>m\<bar> \<le> 2 ^ 53" by simp
    then have m: "int_to_f64 m = Inr (Finite (of_int m))" by (rule int_to_f64_exact)
    show ?thesis
      unfolding m Let_def sum.case
      by (rule efold_cong) (simp add: classify_peak_f64_step [OF m])
  qed
  have "collect_peaks_f64 f_u f_d (lo, hi) = efold (\<lambda>m. efold (\<lambda>k. ?g m k) [lo..hi - 1]) [1..4] empty_peaks"
    unfolding collect_peaks_f64_def prod.case
    by (rule efold_cong) (rule body)
  also have "\<dots> = efold (\<lambda>p. ?g (fst p) (snd p)) (List.product [1..4] [lo..hi - 1]) empty_peaks"
    by (rule efold_efold_product)
  finally show ?thesis by (simp only: prod.collapse)
qed

lemma spec_entry_f64_iff:
  "spec_entry_f64 f_u f_d p = Some (b, v) \<longleftrightarrow>
     spec_alias_f64 f_u f_d (fst p) (snd p) = Inr (Finite v)
     \<and> spec_band_f64 (spec_period_f64 v) = Some b"
  by (auto simp: spec_entry_f64_def split: sum.splits f64.splits option.splits)

lemma spec_band_f64_range:
  "spec_band_f64 q = Some b \<Longrightarrow>
     b \<in> set [''8d_peaks'', ''4d_peaks'', ''2-7d_peaks'', ''2d_peaks'', ''1d_peaks'']"
  by (cases q) (auto split: if_splits)

lemma peak_step_f64_keys: "map fst (peak_step_f64 f_u f_d p s) = map fst s"
  by (simp add: peak_step_f64_def store_peak_keys split: option.split)

lemma fold_peak_step_f64_keys: "map fst (fold (peak_step_f64 f_u f_d) ps s) = map fst s"
  by (induction ps arbitrary: s) (simp_all add: peak_step_f64_keys)

lemma peak_step_f64_lookup:
  "peak_lookup (peak_step_f64 f_u f_d p s) b l =
     (if (\<exists>v. spec_entry_f64 f_u f_d p = Some (b, v))
         \<and> l = peak_label (fst p) (snd p) \<and> b \<in> set (map fst s)
      then map_option snd (spec_entry_f64 f_u f_d p)
      else peak_lookup s b l)"
  by (cases "spec_entry_f64 f_u f_d p") (force simp: peak_step_f64_def peak_lookup_store)+

lemma fold_peak_step_f64_sound:
  "peak_lookup (fold (peak_step_f64 f_u f_d) ps s) b l = Some v \<Longrightarrow>
     peak_lookup s b l = Some v
     \<or> (\<exists>p \<in> set ps. l = peak_label (fst p) (snd p) \<and> spec_entry_f64 f_u f_d p = Some (b, v))"
proof (induction ps arbitrary: s)
  case Nil
  then show ?case by simp
next
  case (Cons p ps)
  from Cons.prems
  have "peak_lookup (fold (peak_step_f64 f_u f_d) ps (peak_step_f64 f_u f_d p s)) b l = Some v"
    by simp
  from Cons.IH [OF this] show ?case
    by (auto simp: peak_step_f64_lookup split: if_splits)
qed

lemma fold_peak_step_f64_complete:
  assumes "inj_on (\<lambda>p. peak_label (fst p) (snd p)) (set ps)"
    and "p \<in> set ps"
    and "spec_entry_f64 f_u f_d p = Some (b, v)"
    and "b \<in> set (map fst s)"
  shows "peak_lookup (fold (peak_step_f64 f_u f_d) ps s) b (peak_label (fst p) (snd p)) = Some v"
  using assms(1,2)
proof (induction ps rule: rev_induct)
  case Nil
  then show ?case by simp
next
  case (snoc q qs)
  have keys: "b \<in> set (map fst (fold (peak_step_f64 f_u f_d) qs s))"
    using assms(4) by (simp only: fold_peak_step_f64_keys)
  show ?case
  proof (cases "q = p")
    case True
    with keys assms(3) show ?thesis
      by (simp add: peak_step_f64_lookup del: set_map)
  next
    case False
    with snoc.prems have mem: "p \<in> set qs" by simp
    from snoc.prems(1) have inj: "inj_on (\<lambda>p. peak_label (fst p) (snd p)) (set qs)"
      by (simp add: inj_on_def)
    from snoc.prems(1) False mem
    have ne: "peak_label (fst p) (snd p) \<noteq> peak_label (fst q) (snd q)"
      by (auto simp: inj_on_def)
    from snoc.IH [OF inj mem] ne show ?thesis
      by (simp add: peak_step_f64_lookup del: set_map)
  qed
qed

lemma peak_step_f64_bands_distinct:
  "\<forall>(b, d) \<in> set s. distinct (map fst d) \<Longrightarrow>
   \<forall>(b, d) \<in> set (peak_step_f64 f_u f_d p s). distinct (map fst d)"
  unfolding peak_step_f64_def
  by (cases "spec_entry_f64 f_u f_d p") (simp_all add: store_peak_bands_distinct)

lemma fold_peak_step_f64_bands_distinct:
  "\<forall>(b, d) \<in> set s. distinct (map fst d) \<Longrightarrow>
   \<forall>(b, d) \<in> set (fold (peak_step_f64 f_u f_d) ps s). distinct (map fst d)"
proof (induction ps arbitrary: s)
  case Nil
  then show ?case by simp
next
  case (Cons p ps)
  from Cons.IH [OF peak_step_f64_bands_distinct [OF Cons.prems]] show ?case by simp
qed

lemma collect_peaks_f64_fold:
  assumes "collect_peaks_f64 f_u f_d (lo, hi) = Inr pre"
  shows "pre = fold (peak_step_f64 f_u f_d) (List.product [1..4] [lo..hi - 1]) empty_peaks"
  using assms unfolding collect_peaks_f64_product by (rule efold_returned)

lemma pruned_lookup_sub:
  assumes "distinct (map fst peaks)"
    and "\<forall>(b, d) \<in> set peaks. distinct (map fst d)"
    and "peak_lookup (fold prune_category (map fst peaks) peaks) b l = Some v"
  shows "peak_lookup peaks b l = Some v"
proof -
  from assms(3) obtain d where d: "map_of (fold prune_category (map fst peaks) peaks) b = Some d"
    and v: "map_of d l = Some v"
    by (auto simp: peak_lookup_def split: option.splits)
  have bin: "b \<in> set (map fst peaks)"
  proof (rule ccontr)
    assume "b \<notin> set (map fst peaks)"
    moreover from this have "map_of peaks b = None" by (simp add: map_of_eq_None_iff)
    ultimately show False using d unfolding fold_prune_lookup [OF assms(1)] by simp
  qed
  from d bin obtain d0 where d0: "map_of peaks b = Some d0" and "d = top_peaks d0"
    unfolding fold_prune_lookup [OF assms(1)]
    by (auto split: option.splits if_splits)
  with v have "(l, v) \<in> set d0"
    using top_peaks_subset [of d0] by (auto dest: map_of_SomeD)
  moreover from d0 have "(b, d0) \<in> set peaks" by (rule map_of_SomeD)
  with assms(2) have "distinct (map fst d0)" by blast
  ultimately have "map_of d0 l = Some v" by simp
  with d0 show ?thesis by (simp add: peak_lookup_def)
qed

lemma spec_alias_f64_returns:
  assumes "\<bar>x\<bar> \<le> 2 ^ 1000" "\<bar>y\<bar> \<le> 2 ^ 1000" "\<bar>mult\<bar> \<le> 4" "\<bar>k\<bar> \<le> 8"
  shows "\<exists>a. spec_alias_f64 (Finite x) (Finite y) mult k = Inr (Finite a)"
proof -
  have x: "\<bar>x\<bar> \<le> pow2 1000" and y: "\<bar>y\<bar> \<le> pow2 1000"
    using assms(1,2) by (simp_all add: pow2_def)
  from assms(3) have "\<bar>mult\<bar> \<le> 2 ^ 53" by simp
  then have m: "int_to_f64 mult = Inr (Finite (of_int mult))" by (rule int_to_f64_exact)
  from assms(4) have "\<bar>k\<bar> \<le> 2 ^ 53" by simp
  then have k: "int_to_f64 k = Inr (Finite (of_int k))" by (rule int_to_f64_exact)
  have p2: "pow2 1002 = 4 * pow2 1000" "pow2 1003 = 8 * pow2 1000" "pow2 1004 = 16 * pow2 1000"
    "pow2 1005 = 32 * pow2 1000"
    by (simp_all add: pow2_def)
  have "\<bar>of_int mult * x\<bar> \<le> 4 * pow2 1000"
  proof -
    have "\<bar>of_int mult * x\<bar> = \<bar>of_int mult\<bar> * \<bar>x\<bar>" by (rule abs_mult)
    also have "\<dots> \<le> 4 * pow2 1000"
      using assms(3) x by (intro mult_mono) simp_all
    finally show ?thesis .
  qed
  then have "\<bar>of_int mult * x\<bar> \<le> pow2 1002" by (simp only: p2)
  from rd_le_pow2 [OF this] obtain u where u: "rd (of_int mult * x) = Finite u" "\<bar>u\<bar> \<le> pow2 1002"
    by auto
  have "\<bar>of_int k * y\<bar> \<le> 8 * pow2 1000"
  proof -
    have "\<bar>of_int k * y\<bar> = \<bar>of_int k\<bar> * \<bar>y\<bar>" by (rule abs_mult)
    also have "\<dots> \<le> 8 * pow2 1000"
      using assms(4) y by (intro mult_mono) simp_all
    finally show ?thesis .
  qed
  then have "\<bar>of_int k * y\<bar> \<le> pow2 1003" by (simp only: p2)
  from rd_le_pow2 [OF this] obtain w where w: "rd (of_int k * y) = Finite w" "\<bar>w\<bar> \<le> pow2 1003"
    by auto
  from u(2) w(2) have "\<bar>u + w\<bar> \<le> pow2 1004" unfolding p2 by linarith
  from rd_le_pow2 [OF this] obtain c where c: "rd (u + w) = Finite c" "\<bar>c\<bar> \<le> pow2 1004"
    by auto
  have comb: "spec_combined_f64 (Finite x) (Finite y) mult k = Inr (Finite c)"
    by (simp add: spec_combined_f64_def m k u(1) w(1) c(1))
  define n where "n = py_round c"
  have "pow2 1004 = of_int (2 ^ 1004)" by (simp add: pow2_def)
  with c(2) have "\<bar>c\<bar> \<le> of_int (2 ^ 1004)" by simp
  then have "\<bar>n\<bar> \<le> 2 ^ 1004" unfolding n_def by (rule py_round_abs_le)
  then have "(of_int \<bar>n\<bar> :: real) \<le> of_int (2 ^ 1004)" by (simp only: of_int_le_iff)
  then have "\<bar>of_int n :: real\<bar> \<le> pow2 1004" by (simp add: pow2_def)
  from rd_le_pow2 [OF this] obtain nf where nf: "rd (of_int n) = Finite nf" "\<bar>nf\<bar> \<le> pow2 1004"
    by auto
  from c(2) nf(2) have "\<bar>c - nf\<bar> \<le> pow2 1005" unfolding p2 by linarith
  from rd_le_pow2 [OF this] obtain a where a: "rd (c - nf) = Finite a"
    by auto
  have "spec_alias_f64 (Finite x) (Finite y) mult k = Inr (Finite \<bar>a\<bar>)"
    by (simp add: spec_alias_f64_def comb n_def [symmetric] int_to_f64_def nf(1) f64_sub_def a)
  then show ?thesis ..
qed

lemma collect_peaks_f64_keys:
  assumes "collect_peaks_f64 f_u f_d r = Inr pre"
  shows "map fst pre = [''8d_peaks'', ''4d_peaks'', ''2-7d_peaks'', ''2d_peaks'', ''1d_peaks'']"
proof -
  obtain lo hi where r: "r = (lo, hi)" by (cases r)
  from collect_peaks_f64_fold [OF assms [unfolded r]] show ?thesis
    by (simp add: fold_peak_step_f64_keys) (simp add: empty_peaks_def)
qed

lemma collect_peaks_f64_bands_distinct:
  assumes "collect_peaks_f64 f_u f_d r = Inr pre"
  shows "\<forall>(b, d) \<in> set pre. distinct (map fst d)"
proof -
  obtain lo hi where r: "r = (lo, hi)" by (cases r)
  have "\<forall>(b, d) \<in> set empty_peaks. distinct (map fst d)"
    by (simp add: empty_peaks_def)
  then show ?thesis
    unfolding collect_peaks_f64_fold [OF assms [unfolded r]]
    by (rule fold_peak_step_f64_bands_distinct)
qed

lemma collect_peaks_f64_returns:
  assumes "\<bar>x\<bar> \<le> 2 ^ 1000" "\<bar>y\<bar> \<le> 2 ^ 1000"
  shows "\<exists>pre. collect_peaks_f64 (Finite x) (Finite y) default_harmonics_range = Inr pre"
proof -
  have "\<forall>p \<in> set (List.product [1..4] [- 6..6]).
          \<exists>a. spec_alias_f64 (Finite x) (Finite y) (fst p) (snd p) = Inr a"
  proof
    fix p :: "int \<times> int"
    assume "p \<in> set (List.product [1..4] [- 6..6])"
    then have "fst p \<in> {1..4}" "snd p \<in> {- 6..6}" unfolding product_upto_mem by simp_all
    then have "\<bar>fst p\<bar> \<le> 4" "\<bar>snd p\<bar> \<le> 8" by auto
    from spec_alias_f64_returns [OF assms this]
    show "\<exists>a. spec_alias_f64 (Finite x) (Finite y) (fst p) (snd p) = Inr a" by blast
  qed
  then have e: "efold (\<lambda>p s. case spec_alias_f64 (Finite x) (Finite y) (fst p) (snd p) of
                     Inl e \<Rightarrow> Inl e
                   | Inr a \<Rightarrow> Inr (peak_step_f64 (Finite x) (Finite y) p s))
       (List.product [1..4] [- 6..6]) empty_peaks
     = Inr (fold (peak_step_f64 (Finite x) (Finite y)) (List.product [1..4] [- 6..6]) empty_peaks)"
    by (rule efold_returns)
  have "collect_peaks_f64 (Finite x) (Finite y) default_harmonics_range =
      efold (\<lambda>p s. case spec_alias_f64 (Finite x) (Finite y) (fst p) (snd p) of
                     Inl e \<Rightarrow> Inl e
                   | Inr a \<Rightarrow> Inr (peak_step_f64 (Finite x) (Finite y) p s))
       (List.product [1..4] [- 6..6]) empty_peaks"
    by (simp add: default_harmonics_range_def collect_peaks_f64_product)
  with e show ?thesis by simp
qed

lemma rd_fu0: "rd (6004799503160661 / 2 ^ 56) = Finite (6004799503160661 / 2 ^ 56)"
  by (subst rd_normal [of "- 4"]) (simp_all add: pow2_def py_round_def Let_def)

lemma rd_inv_fu0: "rd (1 / (6004799503160661 / 2 ^ 56)) = Finite 12"
  by (subst rd_normal [of 3]) (simp_all add: pow2_def py_round_def Let_def)

lemma py_round_fu0: "py_round (6004799503160661 / 2 ^ 56) = 0"
  by (simp add: py_round_def Let_def)

lemma peak_label_1_0: "peak_label 1 0 = ''1f_u+0f_d''"
  by (simp add: peak_label_def fmt_d_def fmt_plus_d_def)

lemma spec_alias_fu0:
  "spec_alias_f64 (Finite (6004799503160661 / 2 ^ 56)) (Finite 0) 1 0
     = Inr (Finite (6004799503160661 / 2 ^ 56))"
  using rd_fu0 rd_zero rd_one py_round_fu0
  by (simp add: spec_alias_f64_def spec_combined_f64_def int_to_f64_def f64_sub_def)

lemma spec_period_fu0: "spec_period_f64 (6004799503160661 / 2 ^ 56) = Finite 12"
  using rd_inv_fu0 by (simp add: spec_period_f64_def)

lemma rd_2fu0: "rd (2 * (6004799503160661 / 2 ^ 56)) = Finite (6004799503160661 / 2 ^ 55)"
  by (subst rd_normal [of "- 3"]) (simp_all add: pow2_def py_round_def Let_def)

lemma rd_2fu0_double: "rd (6004799503160661 / 2 ^ 55) = Finite (6004799503160661 / 2 ^ 55)"
  by (subst rd_normal [of "- 3"]) (simp_all add: pow2_def py_round_def Let_def)

lemma rd_inv_2fu0: "rd (1 / (6004799503160661 / 2 ^ 55)) = Finite 6"
  by (subst rd_normal [of 2]) (simp_all add: pow2_def py_round_def Let_def)

lemma py_round_2fu0: "py_round (6004799503160661 / 2 ^ 55) = 0"
  by (simp add: py_round_def Let_def)

lemma rd_4fu0: "rd (4 * (6004799503160661 / 2 ^ 56)) = Finite (6004799503160661 / 2 ^ 54)"
  by (subst rd_normal [of "- 2"]) (simp_all add: pow2_def py_round_def Let_def)

lemma rd_4fu0_double: "rd (6004799503160661 / 2 ^ 54) = Finite (6004799503160661 / 2 ^ 54)"
  by (subst rd_normal [of "- 2"]) (simp_all add: pow2_def py_round_def Let_def)

lemma rd_inv_4fu0: "rd (1 / (6004799503160661 / 2 ^ 54)) = Finite 3"
  by (subst rd_normal [of 1]) (simp_all add: pow2_def py_round_def Let_def)

lemma py_round_4fu0: "py_round (6004799503160661 / 2 ^ 54) = 0"
  by (simp add: py_round_def Let_def)

lemma rd_two: "rd 2 = Finite 2"
  using rd_int [of 2] by simp

lemma rd_four: "rd 4 = Finite 4"
  using rd_int [of 4] by simp

lemma peak_label_2_0: "peak_label 2 0 = ''2f_u+0f_d''"
  by (simp add: peak_label_def fmt_d_def fmt_plus_d_def)

lemma peak_label_4_0: "peak_label 4 0 = ''4f_u+0f_d''"
  by (simp add: peak_label_def fmt_d_def fmt_plus_d_def)

lemma spec_alias_2fu0:
  "spec_alias_f64 (Finite (6004799503160661 / 2 ^ 56)) (Finite 0) 2 0
     = Inr (Finite (6004799503160661 / 2 ^ 55))"
  using rd_2fu0 rd_2fu0_double rd_zero rd_two py_round_2fu0
  by (simp add: spec_alias_f64_def spec_combined_f64_def int_to_f64_def f64_sub_def)

lemma spec_alias_4fu0:
  "spec_alias_f64 (Finite (6004799503160661 / 2 ^ 56)) (Finite 0) 4 0
     = Inr (Finite (6004799503160661 / 2 ^ 54))"
  using rd_4fu0 rd_4fu0_double rd_zero rd_four py_round_4fu0
  by (simp add: spec_alias_f64_def spec_combined_f64_def int_to_f64_def f64_sub_def)

lemma spec_period_2fu0: "spec_period_f64 (6004799503160661 / 2 ^ 55) = Finite 6"
  using rd_inv_2fu0 by (simp add: spec_period_f64_def)

lemma spec_period_4fu0: "spec_period_f64 (6004799503160661 / 2 ^ 54) = Finite 3"
  using rd_inv_4fu0 by (simp add: spec_period_f64_def)

text \<open>
  C3. On binary64 and with the default harmonic range, \<open>calculate_orbital_peaks\<close> returns
  for all finite frequencies of magnitude at most \<open>2^1000\<close>. Whenever the loops return,
  they have stored under band \<open>b\<close> and label \<open>l\<close> the value \<open>v\<close> exactly when \<open>l\<close> is the
  label of a pair \<open>(mult, k)\<close> with \<open>mult\<close> in \<open>1..4\<close> and \<open>k\<close> in \<open>-6..6\<close>, \<open>v\<close> is its
  computed alias \<open>|combined - round(combined)|\<close> for the computed
  \<open>combined = mult * f_u + k * f_d\<close>, and \<open>b\<close> is the first band of the table \<open>(6,12]\<close>,
  \<open>(3,6]\<close>, \<open>(2,3.5]\<close>, \<open>(1.5,2.5]\<close>, \<open>(0.5,1.5]\<close> that holds the computed period
  \<open>1 / alias\<close> (infinite, and discarded, for alias 0). Every entry of the result is such
  an entry, no label is in two bands of the result, the loop body is the table applied to
  the pair, and a period in \<open>(2, 2.5]\<close> goes to \<open>2-7d_peaks\<close>.
\<close>

theorem orbital_peaks_f64_classification:
  "(\<forall>x y. f_u = Finite x \<and> f_d = Finite y \<and> \<bar>x\<bar> \<le> 2 ^ 1000 \<and> \<bar>y\<bar> \<le> 2 ^ 1000 \<longrightarrow>
       (\<exists>res. calculate_orbital_peaks_f64 f_u f_d default_harmonics_range = Inr res))
   \<and> (\<forall>pre. collect_peaks_f64 f_u f_d default_harmonics_range = Inr pre \<longrightarrow>
        (\<forall>b l v. peak_lookup pre b l = Some v \<longleftrightarrow>
           (\<exists>mult \<in> {1..4}. \<exists>k \<in> {- 6..6}. l = peak_label mult k
               \<and> spec_alias_f64 f_u f_d mult k = Inr (Finite v)
               \<and> spec_band_f64 (spec_period_f64 v) = Some b)))
   \<and> (\<forall>res. calculate_orbital_peaks_f64 f_u f_d default_harmonics_range = Inr res \<longrightarrow>
        (\<forall>b l v. peak_lookup res b l = Some v \<longrightarrow>
           (\<exists>mult \<in> {1..4}. \<exists>k \<in> {- 6..6}. l = peak_label mult k
               \<and> spec_alias_f64 f_u f_d mult k = Inr (Finite v)
               \<and> spec_band_f64 (spec_period_f64 v) = Some b))
        \<and> (\<forall>l b b' v v'. peak_lookup res b l = Some v \<and> peak_lookup res b' l = Some v'
              \<longrightarrow> b = b'))
   \<and> (\<forall>mult \<in> {1..4}. \<forall>k peaks.
         classify_peak_f64 (f64_mul (Finite (of_int mult)) f_u) f_d mult k peaks =
           (case spec_alias_f64 f_u f_d mult k of
              Inl e \<Rightarrow> Inl e
            | Inr (Finite a) \<Rightarrow>
                Inr (case spec_band_f64 (spec_period_f64 a) of
                       None \<Rightarrow> peaks
                     | Some b \<Rightarrow> store_peak b (peak_label mult k) a peaks)
            | Inr q \<Rightarrow> Inr peaks))
   \<and> (\<forall>p. 2 < p \<and> p \<le> 2.5 \<longrightarrow> spec_band_f64 (Finite p) = Some ''2-7d_peaks'')"
proof -
  let ?col = "collect_peaks_f64 f_u f_d default_harmonics_range"
  let ?cal = "calculate_orbital_peaks_f64 f_u f_d default_harmonics_range"
  let ?R = "\<lambda>b l v. \<exists>mult \<in> {1..4}. \<exists>k \<in> {- 6..6}. l = peak_label mult k
      \<and> spec_alias_f64 f_u f_d mult k = Inr (Finite v)
      \<and> spec_band_f64 (spec_period_f64 v) = Some b"
  let ?ps = "List.product [1..4] [- 6..6]"
  have fold: "pre = fold (peak_step_f64 f_u f_d) ?ps empty_peaks" if "?col = Inr pre" for pre
    using collect_peaks_f64_fold [of f_u f_d "- 6" 7 pre] that
    by (simp add: default_harmonics_range_def)
  have sound: "?R b l v" if pre: "?col = Inr pre" and lk: "peak_lookup pre b l = Some v" for pre b l v
  proof -
    from lk have "peak_lookup (fold (peak_step_f64 f_u f_d) ?ps empty_peaks) b l = Some v"
      unfolding fold [OF pre] .
    from fold_peak_step_f64_sound [OF this]
    obtain p where p: "p \<in> set ?ps" "l = peak_label (fst p) (snd p)"
      "spec_entry_f64 f_u f_d p = Some (b, v)"
      unfolding empty_peaks_lookup by blast
    from p(1) have "fst p \<in> {1..4}" "snd p \<in> {- 6..6}"
      unfolding product_upto_mem by simp_all
    with p(2) p(3) [unfolded spec_entry_f64_iff] show ?thesis by blast
  qed
  have complete: "peak_lookup pre b l = Some v" if pre: "?col = Inr pre" and R: "?R b l v"
    for pre b l v
  proof -
    from R obtain mult k where mk: "mult \<in> {1..4}" "k \<in> {- 6..6}" "l = peak_label mult k"
      "spec_alias_f64 f_u f_d mult k = Inr (Finite v)"
      "spec_band_f64 (spec_period_f64 v) = Some b"
      by blast
    have mem: "(mult, k) \<in> set ?ps"
      using mk(1,2) unfolding product_upto_mem by simp
    have keys: "b \<in> set (map fst empty_peaks)"
      using spec_band_f64_range [OF mk(5)] by (simp add: empty_peaks_def)
    have ent: "spec_entry_f64 f_u f_d (mult, k) = Some (b, v)"
      unfolding spec_entry_f64_iff using mk(4,5) by simp
    have "peak_lookup (fold (peak_step_f64 f_u f_d) ?ps empty_peaks) b
            (peak_label (fst (mult, k)) (snd (mult, k))) = Some v"
      by (rule fold_peak_step_f64_complete [OF default_labels_inj mem ent keys])
    then show ?thesis
      unfolding fold [OF pre] mk(3) by simp
  qed
  have pre: "\<forall>pre. ?col = Inr pre \<longrightarrow> (\<forall>b l v. peak_lookup pre b l = Some v \<longleftrightarrow> ?R b l v)"
    using sound complete by blast
  have res_sub: "peak_lookup pre b l = Some v"
    if pre: "?col = Inr pre" and res: "?cal = Inr res" and lk: "peak_lookup res b l = Some v"
    for pre res b l v
  proof -
    from pre res have r: "res = fold prune_category (map fst pre) pre"
      by (simp add: calculate_orbital_peaks_f64_def)
    have d: "distinct (map fst pre)"
      by (simp add: collect_peaks_f64_keys [OF pre])
    from pruned_lookup_sub [OF d collect_peaks_f64_bands_distinct [OF pre] lk [unfolded r]]
    show ?thesis .
  qed
  have col_of_cal: "\<exists>pre. ?col = Inr pre" if "?cal = Inr res" for res
    using that by (cases ?col) (simp_all add: calculate_orbital_peaks_f64_def)
  have res_sound: "?R b l v" if res: "?cal = Inr res" and lk: "peak_lookup res b l = Some v"
    for res b l v
  proof -
    from col_of_cal [OF res] obtain pre where pre: "?col = Inr pre" ..
    from sound [OF pre res_sub [OF pre res lk]] show ?thesis .
  qed
  have one: "b = b'"
    if res: "?cal = Inr res" and l1: "peak_lookup res b l = Some v"
      and l2: "peak_lookup res b' l = Some v'"
    for res l b b' v v'
  proof -
    from res_sound [OF res l1] obtain m k where
      mk: "m \<in> {1..4}" "k \<in> {- 6..6}" "l = peak_label m k"
        "spec_alias_f64 f_u f_d m k = Inr (Finite v)"
        "spec_band_f64 (spec_period_f64 v) = Some b"
      by blast
    from res_sound [OF res l2] obtain m' k' where
      mk': "m' \<in> {1..4}" "k' \<in> {- 6..6}" "l = peak_label m' k'"
        "spec_alias_f64 f_u f_d m' k' = Inr (Finite v')"
        "spec_band_f64 (spec_period_f64 v') = Some b'"
      by blast
    have "(m, k) \<in> set ?ps" "(m', k') \<in> set ?ps"
      using mk(1,2) mk'(1,2) unfolding product_upto_mem by simp_all
    moreover from mk(3) mk'(3)
    have "peak_label (fst (m, k)) (snd (m, k)) = peak_label (fst (m', k')) (snd (m', k'))"
      by simp
    ultimately have "(m, k) = (m', k')"
      by (rule inj_onD [OF default_labels_inj, rotated])
    with mk(4) mk'(4) have "v = v'" by simp
    with mk(5) mk'(5) show ?thesis by simp
  qed
  have res: "\<forall>res. ?cal = Inr res \<longrightarrow>
        (\<forall>b l v. peak_lookup res b l = Some v \<longrightarrow> ?R b l v)
        \<and> (\<forall>l b b' v v'. peak_lookup res b l = Some v \<and> peak_lookup res b' l = Some v'
              \<longrightarrow> b = b')"
    using res_sound one by blast
  have ret: "\<forall>x y. f_u = Finite x \<and> f_d = Finite y \<and> \<bar>x\<bar> \<le> 2 ^ 1000 \<and> \<bar>y\<bar> \<le> 2 ^ 1000 \<longrightarrow>
       (\<exists>res. ?cal = Inr res)"
  proof (intro allI impI)
    fix x y
    assume h: "f_u = Finite x \<and> f_d = Finite y \<and> \<bar>x\<bar> \<le> 2 ^ 1000 \<and> \<bar>y\<bar> \<le> 2 ^ 1000"
    then have "\<exists>pre. ?col = Inr pre"
      using collect_peaks_f64_returns [of x y] by simp
    then show "\<exists>res. ?cal = Inr res"
      by (auto simp: calculate_orbital_peaks_f64_def)
  qed
  have code: "\<forall>mult \<in> {1..4}. \<forall>k peaks.
         classify_peak_f64 (f64_mul (Finite (of_int mult)) f_u) f_d mult k peaks =
           (case spec_alias_f64 f_u f_d mult k of
              Inl e \<Rightarrow> Inl e
            | Inr (Finite a) \<Rightarrow>
                Inr (case spec_band_f64 (spec_period_f64 a) of
                       None \<Rightarrow> peaks
                     | Some b \<Rightarrow> store_peak b (peak_label mult k) a peaks)
            | Inr q \<Rightarrow> Inr peaks)"
  proof (intro ballI allI)
    fix mult :: int and k peaks
    assume "mult \<in> {1..4}"
    then have "\<bar>mult\<bar> \<le> 2 ^ 53" by simp
    then have m: "int_to_f64 mult = Inr (Finite (of_int mult))" by (rule int_to_f64_exact)
    show "classify_peak_f64 (f64_mul (Finite (of_int mult)) f_u) f_d mult k peaks =
           (case spec_alias_f64 f_u f_d mult k of
              Inl e \<Rightarrow> Inl e
            | Inr (Finite a) \<Rightarrow>
                Inr (case spec_band_f64 (spec_period_f64 a) of
                       None \<Rightarrow> peaks
                     | Some b \<Rightarrow> store_peak b (peak_label mult k) a peaks)
            | Inr q \<Rightarrow> Inr peaks)"
      unfolding classify_peak_f64_step [OF m]
      by (simp add: peak_step_f64_def spec_entry_f64_def split: sum.split f64.split option.split)
  qed
  have band: "\<forall>p. 2 < p \<and> p \<le> 2.5 \<longrightarrow> spec_band_f64 (Finite p) = Some ''2-7d_peaks''"
    by simp
  show ?thesis
    by (intro conjI) (fact ret, fact pre, fact res, fact code, fact band)
qed

theorem orbital_peaks_f64_classification_witness:
  "\<bar>6004799503160661 / 2 ^ 56 :: real\<bar> \<le> 2 ^ 1000 \<and> \<bar>0 :: real\<bar> \<le> 2 ^ 1000
   \<and> (\<exists>res. calculate_orbital_peaks_f64 (Finite (6004799503160661 / 2 ^ 56)) (Finite 0)
               default_harmonics_range = Inr res)
   \<and> (\<exists>pre. collect_peaks_f64 (Finite (6004799503160661 / 2 ^ 56)) (Finite 0)
               default_harmonics_range = Inr pre
          \<and> peak_lookup pre ''8d_peaks'' ''1f_u+0f_d'' = Some (6004799503160661 / 2 ^ 56)
          \<and> peak_lookup pre ''4d_peaks'' ''2f_u+0f_d'' = Some (6004799503160661 / 2 ^ 55)
          \<and> peak_lookup pre ''2-7d_peaks'' ''4f_u+0f_d'' = Some (6004799503160661 / 2 ^ 54))
   \<and> (1::int) \<in> {1..4} \<and> (2::int) \<in> {1..4} \<and> (4::int) \<in> {1..4} \<and> (0::int) \<in> {- 6..6}
   \<and> peak_label 1 0 = ''1f_u+0f_d'' \<and> peak_label 2 0 = ''2f_u+0f_d''
   \<and> peak_label 4 0 = ''4f_u+0f_d''
   \<and> spec_alias_f64 (Finite (6004799503160661 / 2 ^ 56)) (Finite 0) 1 0
       = Inr (Finite (6004799503160661 / 2 ^ 56))
   \<and> spec_alias_f64 (Finite (6004799503160661 / 2 ^ 56)) (Finite 0) 2 0
       = Inr (Finite (6004799503160661 / 2 ^ 55))
   \<and> spec_alias_f64 (Finite (6004799503160661 / 2 ^ 56)) (Finite 0) 4 0
       = Inr (Finite (6004799503160661 / 2 ^ 54))
   \<and> spec_period_f64 (6004799503160661 / 2 ^ 56) = Finite 12
   \<and> spec_period_f64 (6004799503160661 / 2 ^ 55) = Finite 6
   \<and> spec_period_f64 (6004799503160661 / 2 ^ 54) = Finite 3
   \<and> 12 < 1 / (6004799503160661 / 2 ^ 56 :: real)
   \<and> 6 < 1 / (6004799503160661 / 2 ^ 55 :: real)
   \<and> 3 < 1 / (6004799503160661 / 2 ^ 54 :: real)
   \<and> spec_band_f64 (Finite 12) = Some ''8d_peaks''
   \<and> spec_band_f64 (Finite 6) = Some ''4d_peaks''
   \<and> spec_band_f64 (Finite 3) = Some ''2-7d_peaks''
   \<and> (2::real) < 9 / 4 \<and> (9 / 4 :: real) \<le> 2.5
   \<and> spec_band_f64 (Finite (9 / 4)) = Some ''2-7d_peaks''"
proof -
  let ?fu = "6004799503160661 / 2 ^ 56 :: real"
  let ?col = "collect_peaks_f64 (Finite ?fu) (Finite 0) default_harmonics_range"
  let ?cal = "calculate_orbital_peaks_f64 (Finite ?fu) (Finite 0) default_harmonics_range"
  note inst = orbital_peaks_f64_classification [of "Finite ?fu" "Finite 0"]
  have b1: "\<bar>?fu\<bar> \<le> 2 ^ 1000"
  proof -
    have "\<bar>?fu\<bar> \<le> 1" by simp
    also have "(1::real) \<le> 2 ^ 1000" by (rule one_le_power) simp
    finally show ?thesis .
  qed
  have b2: "\<bar>0 :: real\<bar> \<le> 2 ^ 1000" by simp
  from inst have "\<forall>x y. Finite ?fu = Finite x \<and> Finite 0 = Finite y \<and> \<bar>x\<bar> \<le> 2 ^ 1000 \<and> \<bar>y\<bar> \<le> 2 ^ 1000
      \<longrightarrow> (\<exists>res. ?cal = Inr res)"
    by (elim conjE)
  with b1 b2 have ret: "\<exists>res. ?cal = Inr res" by blast
  then obtain pre where pre: "?col = Inr pre"
    by (cases ?col) (auto simp: calculate_orbital_peaks_f64_def)
  from inst have "\<forall>pre. ?col = Inr pre \<longrightarrow>
        (\<forall>b l v. peak_lookup pre b l = Some v \<longleftrightarrow>
           (\<exists>mult \<in> {1..4}. \<exists>k \<in> {- 6..6}. l = peak_label mult k
               \<and> spec_alias_f64 (Finite ?fu) (Finite 0) mult k = Inr (Finite v)
               \<and> spec_band_f64 (spec_period_f64 v) = Some b))"
    by (elim conjE)
  with pre have iff: "\<And>b l v. peak_lookup pre b l = Some v \<longleftrightarrow>
           (\<exists>mult \<in> {1..4}. \<exists>k \<in> {- 6..6}. l = peak_label mult k
               \<and> spec_alias_f64 (Finite ?fu) (Finite 0) mult k = Inr (Finite v)
               \<and> spec_band_f64 (spec_period_f64 v) = Some b)"
    by blast
  have stored: "peak_lookup pre b (peak_label mult 0) = Some v"
    if "mult \<in> {1..4}" "spec_alias_f64 (Finite ?fu) (Finite 0) mult 0 = Inr (Finite v)"
      "spec_band_f64 (spec_period_f64 v) = Some b" for mult b v
  proof -
    have "(0::int) \<in> {- 6..6}" by simp
    with that have "\<exists>m \<in> {1..4}. \<exists>k \<in> {- 6..6}. peak_label mult 0 = peak_label m k
               \<and> spec_alias_f64 (Finite ?fu) (Finite 0) m k = Inr (Finite v)
               \<and> spec_band_f64 (spec_period_f64 v) = Some b"
      by blast
    then show ?thesis by (simp only: iff)
  qed
  have m1: "(1::int) \<in> {1..4}" and m2: "(2::int) \<in> {1..4}" and m4: "(4::int) \<in> {1..4}"
    and k: "(0::int) \<in> {- 6..6}" by simp_all
  have band12: "spec_band_f64 (Finite 12) = Some ''8d_peaks''" by simp
  have band6: "spec_band_f64 (Finite 6) = Some ''4d_peaks''" by simp
  have band3: "spec_band_f64 (Finite 3) = Some ''2-7d_peaks''" by simp
  have l8: "peak_lookup pre ''8d_peaks'' ''1f_u+0f_d'' = Some ?fu"
    using stored [OF m1 spec_alias_fu0] band12 by (simp only: spec_period_fu0 peak_label_1_0)
  have l4: "peak_lookup pre ''4d_peaks'' ''2f_u+0f_d'' = Some (6004799503160661 / 2 ^ 55)"
    using stored [OF m2 spec_alias_2fu0] band6 by (simp only: spec_period_2fu0 peak_label_2_0)
  have l27: "peak_lookup pre ''2-7d_peaks'' ''4f_u+0f_d'' = Some (6004799503160661 / 2 ^ 54)"
    using stored [OF m4 spec_alias_4fu0] band3 by (simp only: spec_period_4fu0 peak_label_4_0)
  have exact: "12 < 1 / ?fu" "6 < 1 / (6004799503160661 / 2 ^ 55 :: real)"
    "3 < 1 / (6004799503160661 / 2 ^ 54 :: real)" by simp_all
  have rng: "(2::real) < 9 / 4" "(9 / 4 :: real) \<le> 2.5" by simp_all
  from inst have "\<forall>p. 2 < p \<and> p \<le> 2.5 \<longrightarrow> spec_band_f64 (Finite p) = Some ''2-7d_peaks''"
    by (elim conjE)
  with rng have b27: "spec_band_f64 (Finite (9 / 4)) = Some ''2-7d_peaks''"
    by blast
  from pre l8 l4 l27 have ex: "\<exists>pre. ?col = Inr pre
          \<and> peak_lookup pre ''8d_peaks'' ''1f_u+0f_d'' = Some ?fu
          \<and> peak_lookup pre ''4d_peaks'' ''2f_u+0f_d'' = Some (6004799503160661 / 2 ^ 55)
          \<and> peak_lookup pre ''2-7d_peaks'' ''4f_u+0f_d'' = Some (6004799503160661 / 2 ^ 54)"
    by blast
  show ?thesis
    by (intro conjI) (fact b1, fact b2, fact ret, fact ex, fact m1, fact m2, fact m4, fact k,
      fact peak_label_1_0, fact peak_label_2_0, fact peak_label_4_0,
      fact spec_alias_fu0, fact spec_alias_2fu0, fact spec_alias_4fu0,
      fact spec_period_fu0, fact spec_period_2fu0, fact spec_period_4fu0,
      fact exact(1), fact exact(2), fact exact(3), fact band12, fact band6, fact band3,
      fact rng(1), fact rng(2), fact b27)
qed

section \<open>The catalogue: its shape and its values\<close>

lemma nonneg_val_Num: "nonneg_val (Num x) = pf_le (Fin 0) x"
  by (simp add: nonneg_val_def)

lemma nonneg_val_num: "nonneg_val (num r) = (0 \<le> r)"
  by (simp add: nonneg_val_def num_def)

lemma nonneg_val_Dict: "nonneg_val (Dict d) = (\<forall>kv \<in> set d. nonneg_val (snd kv))"
  by (auto simp: nonneg_val_def)

lemma nonneg_val_real_dict: "nonneg_val (real_dict d) = (\<forall>kv \<in> set d. 0 \<le> snd kv)"
  by (simp add: real_dict_def nonneg_val_Dict nonneg_val_num)

lemma nonneg_val_int_dict: "nonneg_val (int_dict d) = (\<forall>kv \<in> set d. 0 \<le> snd kv)"
  by (simp add: int_dict_def nonneg_val_Dict nonneg_val_num)

lemma nonneg_val_peaks_dict:
  "nonneg_val (peaks_dict p) = (\<forall>bd \<in> set p. \<forall>kv \<in> set (snd bd). 0 \<le> snd kv)"
  by (simp add: peaks_dict_def nonneg_val_Dict nonneg_val_real_dict)

lemma harmonics_nonneg:
  "0 \<le> base_freq \<Longrightarrow> \<forall>kv \<in> set (calculate_draconitic_harmonics base_freq n). 0 \<le> snd kv"
  by (auto simp: calculate_draconitic_harmonics_def)

lemma annual_harmonics_nonneg:
  "0 \<le> base_freq \<Longrightarrow> \<forall>kv \<in> set (calculate_annual_harmonics base_freq n). 0 \<le> snd kv"
  by (auto simp: calculate_annual_harmonics_def)

lemma orbital_peaks_nonneg:
  assumes "bd \<in> set (calculate_orbital_peaks f_u f_d r)" and "kv \<in> set (snd bd)"
  shows "0 \<le> snd kv"
proof -
  obtain lo hi where r: "r = (lo, hi)" by (cases r)
  obtain b d where bd: "bd = (b, d)" by (cases bd)
  obtain l v where kv: "kv = (l, v)" by (cases kv)
  from assms(1) orbital_peaks_distinct [of f_u f_d r] have "map_of (calculate_orbital_peaks f_u f_d r) b = Some d"
    by (simp add: bd)
  then obtain d0 where d0: "map_of (collect_peaks f_u f_d r) b = Some d0" and d: "d = top_peaks d0"
    by (auto simp: orbital_peaks_lookup split: option.splits if_splits)
  from assms(2) have "(l, v) \<in> set d0"
    using top_peaks_subset [of d0] by (auto simp: bd kv d)
  with collect_peaks_bands_distinct [OF d0] have "map_of d0 l = Some v"
    by simp
  with d0 have "peak_lookup (collect_peaks f_u f_d (lo, hi)) b l = Some v"
    by (simp add: peak_lookup_def r)
  from collect_peaks_sound [OF this] show ?thesis
    by (auto simp: kv spec_alias_nonneg)
qed

lemma update_set_subset: "set (AList.update k v al) \<subseteq> insert (k, v) (set al)"
  by (induction al) auto

lemma update_nonneg_val:
  "nonneg_val v \<Longrightarrow> \<forall>kv \<in> set al. nonneg_val (snd kv) \<Longrightarrow>
     \<forall>kv \<in> set (AList.update k v al). nonneg_val (snd kv)"
  using update_set_subset [of k v al] by auto

lemma alias_nonneg: "0 \<le> calculate_alias_frequency f r"
  by (simp add: calculate_alias_frequency_def Let_def)

lemma alias_step_nonneg:
  "\<forall>kv \<in> set al. nonneg_val (snd kv) \<Longrightarrow>
     \<forall>kv \<in> set (alias_step g1 g2 g3 tide al). nonneg_val (snd kv)"
  unfolding alias_step_def
  by (cases tide) (simp only: prod.case, intro update_nonneg_val, simp_all add: nonneg_val_num alias_nonneg)

lemma fold_alias_step_nonneg:
  "\<forall>kv \<in> set al. nonneg_val (snd kv) \<Longrightarrow>
     \<forall>kv \<in> set (fold (alias_step g1 g2 g3) ts al). nonneg_val (snd kv)"
proof (induction ts arbitrary: al)
  case Nil
  then show ?case by simp
next
  case (Cons t ts)
  from Cons.IH [OF alias_step_nonneg [OF Cons.prems]] show ?case by simp
qed

lemma signals_loop_ok:
  assumes "T_S \<noteq> 0" "T_E \<noteq> 0"
  shows "\<forall>kv \<in> set acc. nonneg_val (snd kv) \<Longrightarrow>
     \<exists>s. signals_loop T_S T_E nms acc = Inr s \<and> (\<forall>kv \<in> set s. nonneg_val (snd kv))"
proof (induction nms arbitrary: acc)
  case Nil
  then show ?case by simp
next
  case (Cons nm nms)
  obtain n m where nm: "nm = (n, m)" by (cases nm)
  from assms have "\<exists>P. calculate_orbital_period n m T_S T_E = Inr P"
    by (simp add: calculate_orbital_period_def Let_def)
  then obtain P where P: "calculate_orbital_period n m T_S T_E = Inr P" ..
  show ?case
  proof (cases P)
    case PInf
    with P Cons show ?thesis by (simp add: nm)
  next
    case (Fin p)
    show ?thesis
    proof (cases "0 < p")
      case False
      with P Fin Cons show ?thesis by (simp add: nm)
    next
      case True
      define a where "a = \<bar>24 / p - of_int \<lfloor>24 / p + 1 / 2\<rfloor>\<bar>"
      have sub: "calculate_subdaily_aliasing (24 / p) 24 = Inr a"
        by (simp add: calculate_subdaily_aliasing_def a_def)
      have a0: "0 \<le> a" by (simp add: a_def)
      let ?rec = "Dict [(KStr ''orbital_period_hours'', Num (Fin p)),
                        (KStr ''frequency_cpd'', Num (Fin (24 / p))),
                        (KStr ''aliased_frequency_cpd'', Num (Fin a)),
                        (KStr ''aliased_period_days'', Num (if 0 < a then Fin (1 / a) else PInf))]"
      have "nonneg_val ?rec"
        using True a0 by (simp add: nonneg_val_Dict nonneg_val_Num)
      from Cons.IH [OF update_nonneg_val [OF this Cons.prems]] P Fin True sub
      show ?thesis
        by (simp add: nm Let_def)
    qed
  qed
qed

lemma signals_table_shape:
  "\<exists>sg sl sa. calculate_orbital_signals_table =
       Inr [(KStr ''gps'', Dict sg), (KStr ''glonass'', Dict sl), (KStr ''galileo'', Dict sa)]
     \<and> nonneg_val (Dict sg) \<and> nonneg_val (Dict sl) \<and> nonneg_val (Dict sa)"
proof -
  have e: "\<forall>kv \<in> set ([] :: (pykey \<times> pyval) list). nonneg_val (snd kv)"
    by simp
  obtain sg where sg: "signals_loop 11.967 23.9345 nm_combinations [] = Inr sg"
    "\<forall>kv \<in> set sg. nonneg_val (snd kv)"
    using signals_loop_ok [of "11.967" "23.9345" "[]" nm_combinations, OF _ _ e] by auto
  obtain sl where sl: "signals_loop 11.264 23.9345 nm_combinations [] = Inr sl"
    "\<forall>kv \<in> set sl. nonneg_val (snd kv)"
    using signals_loop_ok [of "11.264" "23.9345" "[]" nm_combinations, OF _ _ e] by auto
  obtain sa where sa: "signals_loop 14.077 23.9345 nm_combinations [] = Inr sa"
    "\<forall>kv \<in> set sa. nonneg_val (snd kv)"
    using signals_loop_ok [of "14.077" "23.9345" "[]" nm_combinations, OF _ _ e] by auto
  have "calculate_orbital_signals_table =
       Inr [(KStr ''gps'', Dict sg), (KStr ''glonass'', Dict sl), (KStr ''galileo'', Dict sa)]"
    unfolding calculate_orbital_signals_table_def Let_def
    using sg(1) sl(1) sa(1) by simp
  with sg(2) sl(2) sa(2) show ?thesis
    by (auto simp: nonneg_val_Dict)
qed

lemma catalogue_shape:
  "\<exists>sg sl sa. create_gnss_frequencies = Inr (catalogue_with sg sl sa)
     \<and> nonneg_val (Dict sg) \<and> nonneg_val (Dict sl) \<and> nonneg_val (Dict sa)"
proof -
  from signals_table_shape obtain sg sl sa where
    tab: "calculate_orbital_signals_table =
       Inr [(KStr ''gps'', Dict sg), (KStr ''glonass'', Dict sl), (KStr ''galileo'', Dict sa)]"
    and nn: "nonneg_val (Dict sg)" "nonneg_val (Dict sl)" "nonneg_val (Dict sa)"
    by blast
  have "create_gnss_frequencies = Inr (catalogue_with sg sl sa)"
    unfolding create_gnss_frequencies_def Let_def catalogue_with_def tab
    by (simp add: attach_signals_def)
  with nn show ?thesis by blast
qed

lemma tides_nonneg: "\<forall>kv \<in> set tides. 0 \<le> snd kv"
  by (simp add: tides_def)

lemma aliases_nonneg: "nonneg_val (Dict (fold (alias_step g1 g2 g3) ts []))"
  unfolding nonneg_val_Dict by (rule fold_alias_step_nonneg) simp

lemma peaks_dict_nonneg: "nonneg_val (peaks_dict (calculate_orbital_peaks f_u f_d r))"
  unfolding nonneg_val_peaks_dict using orbital_peaks_nonneg by blast

lemma draconitic_dict_nonneg:
  "0 \<le> b \<Longrightarrow> nonneg_val (int_dict (calculate_draconitic_harmonics b n))"
  unfolding nonneg_val_int_dict by (rule harmonics_nonneg)

lemma annual_dict_nonneg:
  "0 \<le> b \<Longrightarrow> nonneg_val (int_dict (calculate_annual_harmonics b n))"
  unfolding nonneg_val_int_dict by (rule annual_harmonics_nonneg)

lemma getpath_catalogue_with:
  "getpath (catalogue_with sg sl sa) [KStr ''gps'', KStr ''nodal_precession_frequency'']
     = Inr (Num (Fin (- 0.0001075)))"
  "getpath (catalogue_with sg sl sa) [KStr ''glonass'', KStr ''nodal_precession_frequency'']
     = Inr (Num (Fin (- 0.0000922)))"
  "getpath (catalogue_with sg sl sa) [KStr ''galileo'', KStr ''nodal_precession_frequency'']
     = Inr (Num (Fin (- 0.0000726)))"
  "getpath (catalogue_with sg sl sa) [KStr ''gps'', KStr ''draconitic_frequency'']
     = Inr (Num (Fin 0.0028453))"
  "getpath (catalogue_with sg sl sa) [KStr ''tides''] = Inr (real_dict tides)"
  "getpath (catalogue_with sg sl sa) [KStr ''aliases'']
     = Inr (Dict (fold (alias_step 1.0028507 0.1015706 0.1253540) tides []))"
  by (simp_all add: catalogue_with_def num_def)

lemma getpath_leaves:
  "getpath v path = Inr (Num x) \<Longrightarrow> (path, x) \<in> set (leaves v)"
proof (induction path arbitrary: v)
  case Nil
  then show ?case by simp
next
  case (Cons k ks)
  from Cons.prems obtain d w where v: "v = Dict d" and w: "map_of d k = Some w"
    and rest: "getpath w ks = Inr (Num x)"
    by (cases v) (auto split: option.splits sum.splits)
  from Cons.IH [OF rest] have "(ks, x) \<in> set (leaves w)" .
  moreover from w have "(k, w) \<in> set d" by (rule map_of_SomeD)
  ultimately show ?case
    unfolding v by (force simp del: set_concat simp add: set_concat image_iff)
qed

section \<open>The catalogue: entries and signs\<close>

lemma aliases_eq:
  "fold (alias_step g1 g2 g3) tides [] =
     concat (map (\<lambda>tide.
        [(KStr (fst tide @ ''_daily''), num (calculate_alias_frequency (snd tide) 1)),
         (KStr (fst tide @ ''_gps''), num (calculate_alias_frequency (snd tide) g1)),
         (KStr (fst tide @ ''_galileo''), num (calculate_alias_frequency (snd tide) g2)),
         (KStr (fst tide @ ''_glonass''), num (calculate_alias_frequency (snd tide) g3))]) tides)"
  by (simp add: tides_def alias_step_def)

lemma aliases_length: "length (fold (alias_step g1 g2 g3) tides []) = 32"
  unfolding aliases_eq by (simp add: tides_def)

lemma aliases_keys_distinct: "distinct (map fst (fold (alias_step g1 g2 g3) tides []))"
  unfolding aliases_eq by (simp add: tides_def)

lemma catalogue_lookup_shape:
  assumes "create_gnss_frequencies = Inr (catalogue_with sg sl sa)"
  shows "catalogue_lookup path = getpath (catalogue_with sg sl sa) path"
  by (simp add: catalogue_lookup_def assms)

text \<open>
  C7. \<^verbatim>\<open>create_gnss_frequencies()["gps"]["draconitic_frequency"]\<close> is the literal
  \<open>0.0028453\<close>, and \<^verbatim>\<open>create_gnss_frequencies()["aliases"]\<close> has exactly four entries for
  each of the eight tide constants, 32 in all, under distinct keys: for every tide, in the
  order of the tides, its alias against \<open>1.0\<close> and against the ground-repeat frequencies of
  GPS, Galileo and GLONASS.
\<close>

theorem catalogue_entries:
  "catalogue_lookup [KStr ''gps'', KStr ''draconitic_frequency''] = Inr (Num (Fin 0.0028453))
   \<and> catalogue_lookup [KStr ''tides''] = Inr (real_dict tides)
   \<and> (\<exists>aliases. catalogue_lookup [KStr ''aliases''] = Inr (Dict aliases)
         \<and> length aliases = 4 * length tides \<and> length aliases = 32 \<and> length tides = 8
         \<and> distinct (map fst aliases)
         \<and> aliases = concat (map (\<lambda>tide.
              [(KStr (fst tide @ ''_daily''), num (calculate_alias_frequency (snd tide) 1)),
               (KStr (fst tide @ ''_gps''), num (calculate_alias_frequency (snd tide) 1.0028507)),
               (KStr (fst tide @ ''_galileo''), num (calculate_alias_frequency (snd tide) 0.1015706)),
               (KStr (fst tide @ ''_glonass''), num (calculate_alias_frequency (snd tide) 0.1253540))])
              tides))"
proof -
  from catalogue_shape obtain sg sl sa
    where c: "create_gnss_frequencies = Inr (catalogue_with sg sl sa)"
    by blast
  note look = catalogue_lookup_shape [OF c]
  let ?al = "fold (alias_step 1.0028507 0.1015706 0.1253540) tides []"
  have "catalogue_lookup [KStr ''gps'', KStr ''draconitic_frequency''] = Inr (Num (Fin 0.0028453))"
    unfolding look by (rule getpath_catalogue_with)
  moreover have "catalogue_lookup [KStr ''tides''] = Inr (real_dict tides)"
    unfolding look by (rule getpath_catalogue_with)
  moreover have "catalogue_lookup [KStr ''aliases''] = Inr (Dict ?al)"
    unfolding look by (rule getpath_catalogue_with)
  moreover have "length tides = 8"
    by (simp add: tides_def)
  moreover have "length ?al = 32"
    by (rule aliases_length)
  moreover have "distinct (map fst ?al)"
    by (rule aliases_keys_distinct)
  moreover note aliases_eq [of "1.0028507" "0.1015706" "0.1253540"]
  ultimately show ?thesis
    by (intro conjI exI [of _ ?al]) simp_all
qed

theorem catalogue_entries_witness:
  "catalogue_lookup [KStr ''gps'', KStr ''draconitic_frequency''] = Inr (Num (Fin 0.0028453))
   \<and> 4 * length tides = 32"
  using catalogue_entries by auto

text \<open>
  The catalogue stores a negative value: the nodal precession frequency of GPS is
  \<open>-0.0001075\<close>.
\<close>

theorem catalogue_negative_value:
  "catalogue_lookup [KStr ''gps'', KStr ''nodal_precession_frequency'']
     = Inr (Num (Fin (- 0.0001075)))
   \<and> \<not> pf_le (Fin 0) (Fin (- 0.0001075))"
proof -
  from catalogue_shape obtain sg sl sa
    where c: "create_gnss_frequencies = Inr (catalogue_with sg sl sa)"
    by blast
  have "catalogue_lookup [KStr ''gps'', KStr ''nodal_precession_frequency'']
     = Inr (Num (Fin (- 0.0001075)))"
    unfolding catalogue_lookup_shape [OF c] by (rule getpath_catalogue_with)
  then show ?thesis by simp
qed

lemma neg_leaves_nonneg: "nonneg_val v \<Longrightarrow> neg_leaves v = {}"
  by (auto simp: neg_leaves_def nonneg_val_def)

lemma neg_leaves_num: "neg_leaves (num r) = (if 0 \<le> r then {} else {([], Fin r)})"
  by (auto simp: neg_leaves_def num_def)

lemma neg_leaves_Dict_Nil: "neg_leaves (Dict []) = {}"
  by (simp add: neg_leaves_def)

lemma neg_leaves_Dict_Cons:
  "neg_leaves (Dict ((k, v) # d)) =
     (\<lambda>px. (k # fst px, snd px)) ` neg_leaves v \<union> neg_leaves (Dict d)"
  by (auto simp: neg_leaves_def)

lemma neg_leaves_catalogue_with:
  assumes "nonneg_val (Dict sg)" "nonneg_val (Dict sl)" "nonneg_val (Dict sa)"
  shows "neg_leaves (catalogue_with sg sl sa) =
     {([KStr ''gps'', KStr ''nodal_precession_frequency''], Fin (- 0.0001075)),
      ([KStr ''glonass'', KStr ''nodal_precession_frequency''], Fin (- 0.0000922)),
      ([KStr ''galileo'', KStr ''nodal_precession_frequency''], Fin (- 0.0000726))}"
proof -
  note parts = neg_leaves_nonneg [OF assms(1)] neg_leaves_nonneg [OF assms(2)]
    neg_leaves_nonneg [OF assms(3)]
    neg_leaves_nonneg [OF draconitic_dict_nonneg] neg_leaves_nonneg [OF annual_dict_nonneg]
    neg_leaves_nonneg [OF peaks_dict_nonneg] neg_leaves_nonneg [OF aliases_nonneg]
  have tides: "neg_leaves (real_dict tides) = {}"
    by (rule neg_leaves_nonneg) (simp add: nonneg_val_real_dict tides_nonneg)
  show ?thesis
    unfolding catalogue_with_def
    by (simp add: neg_leaves_Dict_Cons neg_leaves_Dict_Nil neg_leaves_num parts tides) blast
qed

text \<open>
  C6, amended. \<open>create_gnss_frequencies\<close> returns a catalogue whose negative floats are
  exactly the three nodal precession frequencies: \<open>-0.0001075\<close> for GPS, \<open>-0.0000922\<close> for
  GLONASS and \<open>-0.0000726\<close> for Galileo, each under the key \<open>nodal_precession_frequency\<close> of
  its constellation. Every other float of the catalogue is non-negative.
\<close>

theorem catalogue_negative_leaves:
  "\<exists>c. create_gnss_frequencies = Inr c
     \<and> {px \<in> set (leaves c). \<not> pf_le (Fin 0) (snd px)} =
         {([KStr ''gps'', KStr ''nodal_precession_frequency''], Fin (- 0.0001075)),
          ([KStr ''glonass'', KStr ''nodal_precession_frequency''], Fin (- 0.0000922)),
          ([KStr ''galileo'', KStr ''nodal_precession_frequency''], Fin (- 0.0000726))}"
proof -
  from catalogue_shape obtain sg sl sa
    where c: "create_gnss_frequencies = Inr (catalogue_with sg sl sa)"
    and nn: "nonneg_val (Dict sg)" "nonneg_val (Dict sl)" "nonneg_val (Dict sa)"
    by blast
  from neg_leaves_catalogue_with [OF nn] c show ?thesis
    unfolding neg_leaves_def by blast
qed

theorem catalogue_negative_leaves_witness:
  "\<exists>c. create_gnss_frequencies = Inr c
     \<and> ([KStr ''gps'', KStr ''draconitic_frequency''], Fin 0.0028453) \<in> set (leaves c)
     \<and> pf_le (Fin 0) (Fin 0.0028453)
     \<and> ([KStr ''gps'', KStr ''nodal_precession_frequency''], Fin (- 0.0001075)) \<in> set (leaves c)
     \<and> \<not> pf_le (Fin 0) (Fin (- 0.0001075))"
proof -
  from catalogue_negative_leaves obtain c where c: "create_gnss_frequencies = Inr c"
    and neg: "{px \<in> set (leaves c). \<not> pf_le (Fin 0) (snd px)} =
         {([KStr ''gps'', KStr ''nodal_precession_frequency''], Fin (- 0.0001075)),
          ([KStr ''glonass'', KStr ''nodal_precession_frequency''], Fin (- 0.0000922)),
          ([KStr ''galileo'', KStr ''nodal_precession_frequency''], Fin (- 0.0000726))}"
    by blast
  from catalogue_shape obtain sg sl sa
    where shape: "create_gnss_frequencies = Inr (catalogue_with sg sl sa)"
    by blast
  have "(Inr c :: error + pyval) = Inr (catalogue_with sg sl sa)"
    by (rule trans [OF c [symmetric] shape])
  then have "c = catalogue_with sg sl sa"
    by (simp only: sum.inject)
  then have mem: "([KStr ''gps'', KStr ''draconitic_frequency''], Fin 0.0028453) \<in> set (leaves c)"
    by (simp only:) (rule getpath_leaves, rule getpath_catalogue_with)
  have pos: "pf_le (Fin 0) (Fin 0.0028453)" by simp
  have "([KStr ''gps'', KStr ''nodal_precession_frequency''], Fin (- 0.0001075))
      \<in> {px \<in> set (leaves c). \<not> pf_le (Fin 0) (snd px)}"
    unfolding neg by simp
  then have nodal: "([KStr ''gps'', KStr ''nodal_precession_frequency''], Fin (- 0.0001075)) \<in> set (leaves c)"
    and negv: "\<not> pf_le (Fin 0) (Fin (- 0.0001075))"
    by simp_all
  from c mem pos nodal negv show ?thesis by blast
qed

end
